theory Spec2Isabelle
  imports Main
begin

section \<open>hd-idle: the idle-detection and spin-down engine (hdidle.go)\<close>

text \<open>
  A shallow embedding of \<^verbatim>\<open>src/hdidle.go\<close>. The three package-level variables
  (\<^verbatim>\<open>previousSnapshots\<close>, \<^verbatim>\<open>now\<close>, \<^verbatim>\<open>lastNow\<close>) are the fields of a record that every
  function takes and returns. What the program prints, appends to its log file or asks
  of a collaborator is recorded, in order, in the field \<open>trace\<close> of the same record.
  \<^verbatim>\<open>log.Fatalf\<close> ends the process: a function that can reach it returns a sum, \<open>Inl\<close> the
  world in which the process ended, \<open>Inr\<close> the world in which it returned.
\<close>

subsection \<open>Time\<close>

text \<open>
  An instant is a number of nanoseconds on one time line; a \<^verbatim>\<open>time.Duration\<close> is an
  int64 count of nanoseconds. \<^verbatim>\<open>Time.Sub\<close> saturates at the largest and the smallest
  duration. The zero \<^verbatim>\<open>time.Time\<close> is the origin of the line.
\<close>

type_synonym time = int
type_synonym duration = int

definition maxDuration :: duration where
  "maxDuration = 2 ^ 63 - 1"

definition minDuration :: duration where
  "minDuration = - (2 ^ 63)"

definition Sub :: "time \<Rightarrow> time \<Rightarrow> duration" where
  "Sub t u = (let d = t - u in
     if maxDuration < d then maxDuration else if d < minDuration then minDuration else d)"

definition zeroTime :: time where
  "zeroTime = 0"

subsection \<open>Configuration and device state\<close>

definition SCSI :: string where
  "SCSI = ''scsi''"

definition ATA :: string where
  "ATA = ''ata''"

record DefaultConf =
  Idle :: duration
  CommandType :: string
  Debug :: bool
  LogFile :: string
  SymlinkPolicy :: int

record DeviceConf =
  Name :: string
  GivenName :: string
  Idle :: duration
  CommandType :: string

record Config =
  Devices :: "DeviceConf list"
  Defaults :: DefaultConf
  SkewTime :: duration

text \<open>
  Modelled from the spec: the declaration of the struct \<^verbatim>\<open>diskstats.DiskStats\<close> is not
  under src/. The fields are the ones \<^verbatim>\<open>updateState\<close> and \<^verbatim>\<open>initDevice\<close> read and write;
  the counters are unsigned and only ever compared for equality.
\<close>

record DiskStats =
  Name :: string
  IdleTime :: duration
  CommandType :: string
  Reads :: nat
  Writes :: nat
  SpinDownAt :: time
  SpinUpAt :: time
  LastIoAt :: time
  SpunDown :: bool

subsection \<open>Effects\<close>

text \<open>
  The text handed to \<^verbatim>\<open>logToFile\<close>, one constructor per \<^verbatim>\<open>fmt.Sprintf\<close> format of the
  source, with the arguments of the format. The rendering of dates and of durations as
  whole seconds (through \<^verbatim>\<open>float64\<close>) is not modelled: \<open>SpinupText t name running stopped\<close>
  carries the two durations whose seconds \<^verbatim>\<open>logSpinup\<close> prints after \<^verbatim>\<open>running:\<close> and
  \<^verbatim>\<open>stopped:\<close>.
\<close>

datatype logtext =
    SymlinkResolved string string
  | SpinupText time string duration duration
  | SpinupAfterSleepText time string

text \<open>
  One event per observable action: a line on the console (one constructor per
  \<^verbatim>\<open>fmt.Printf\<close>/\<^verbatim>\<open>fmt.Println\<close> call of the source), a line appended to the log file, a
  call of a collaborator, and the \<^verbatim>\<open>log.Fatalf\<close> that ends the process.
\<close>

datatype event =
    PrintCannotResolve string
  | PrintSpindown string
  | PrintError string
  | PrintSpinup string
  | PrintDebug DiskStats duration
  | LogLine string logtext
  | CallRealPath string
  | CallStopScsi string
  | CallStopAta string
  | Fatalf string

text \<open>
  The collaborators, as parameters: the clock (\<open>clock e n\<close> is what the \<open>n\<close>-th call of
  \<^verbatim>\<open>time.Now()\<close> returns), \<^verbatim>\<open>io.RealPath\<close> (\<open>None\<close> when it returns an error),
  \<^verbatim>\<open>sgio.StopScsiDevice\<close> and \<^verbatim>\<open>sgio.StopAtaDevice\<close> (\<open>Some msg\<close> when they return an error
  whose text is \<open>msg\<close>), and the file system under \<^verbatim>\<open>logToFile\<close> (\<open>appendLine e file text\<close>
  holds when the file opens, takes the line and closes).
\<close>

record env =
  clock :: "nat \<Rightarrow> time"
  RealPath :: "string \<Rightarrow> string option"
  StopScsiDevice :: "string \<Rightarrow> string option"
  StopAtaDevice :: "string \<Rightarrow> string option"
  appendLine :: "string \<Rightarrow> logtext \<Rightarrow> bool"

record world =
  previousSnapshots :: "DiskStats list"
  now :: time
  lastNow :: time
  ticks :: nat
  trace :: "event list"

definition emit :: "event \<Rightarrow> world \<Rightarrow> world" where
  "emit ev w = w\<lparr>trace := trace w @ [ev]\<rparr>"

definition timeNow :: "env \<Rightarrow> world \<Rightarrow> time \<times> world" where
  "timeNow e w = (clock e (ticks w), w\<lparr>ticks := Suc (ticks w)\<rparr>)"

text \<open>
  \<^verbatim>\<open>previousSnapshots[dsi].Field = v\<close>. Every index \<^verbatim>\<open>updateState\<close> uses comes from
  \<^verbatim>\<open>previousDiskStatsIndex\<close> and is in range (lemma \<open>previousDiskStatsIndex_cases\<close>).
\<close>

definition setPrevious :: "nat \<Rightarrow> (DiskStats \<Rightarrow> DiskStats) \<Rightarrow> world \<Rightarrow> world" where
  "setPrevious dsi f w =
     w\<lparr>previousSnapshots := (previousSnapshots w)[dsi := f (previousSnapshots w ! dsi)]\<rparr>"

subsection \<open>logToFile and the event reporters\<close>

definition logToFile :: "env \<Rightarrow> string \<Rightarrow> logtext \<Rightarrow> world \<Rightarrow> world + world" where
  "logToFile e file text w =
     (if length file = 0 then Inr w
      else if appendLine e file text then Inr (emit (LogLine file text) w)
      else Inl (emit (Fatalf file) w))"

definition logSpinup :: "env \<Rightarrow> DiskStats \<Rightarrow> string \<Rightarrow> world \<Rightarrow> world + world" where
  "logSpinup e ds file w =
     (case timeNow e w of (now', w1) \<Rightarrow>
        logToFile e file
          (SpinupText now' (DiskStats.Name ds)
             (Sub (SpinDownAt ds) (SpinUpAt ds)) (Sub now' (SpinDownAt ds))) w1)"

definition logSpinupAfterSleep :: "env \<Rightarrow> string \<Rightarrow> string \<Rightarrow> world \<Rightarrow> world + world" where
  "logSpinupAfterSleep e name file w =
     logToFile e file (SpinupAfterSleepText (now w) name) w"

subsection \<open>resolveSymlinks\<close>

fun resolveDevices ::
  "env \<Rightarrow> DefaultConf \<Rightarrow> DeviceConf list \<Rightarrow> world \<Rightarrow> world + (DeviceConf list \<times> world)" where
  "resolveDevices e defaults [] w = Inr ([], w)"
| "resolveDevices e defaults (device # rest) w =
     (if length (DeviceConf.Name device) = 0 then
        (case RealPath e (GivenName device) of
           Some realPath \<Rightarrow>
             (case logToFile e (LogFile defaults)
                     (SymlinkResolved (GivenName device) realPath)
                     (emit (CallRealPath (GivenName device)) w) of
                Inl x \<Rightarrow> Inl x
              | Inr w1 \<Rightarrow>
                  (case resolveDevices e defaults rest w1 of
                     Inl x \<Rightarrow> Inl x
                   | Inr (rest', w2) \<Rightarrow>
                       Inr (device\<lparr>DeviceConf.Name := realPath\<rparr> # rest', w2)))
         | None \<Rightarrow>
             (case resolveDevices e defaults rest
                     (if Debug defaults
                      then emit (PrintCannotResolve (GivenName device))
                             (emit (CallRealPath (GivenName device)) w)
                      else emit (CallRealPath (GivenName device)) w) of
                Inl x \<Rightarrow> Inl x
              | Inr (rest', w2) \<Rightarrow> Inr (device # rest', w2)))
      else
        (case resolveDevices e defaults rest w of
           Inl x \<Rightarrow> Inl x
         | Inr (rest', w2) \<Rightarrow> Inr (device # rest', w2)))"

definition resolveSymlinks :: "env \<Rightarrow> Config \<Rightarrow> world \<Rightarrow> world + (Config \<times> world)" where
  "resolveSymlinks e config w =
     (if SymlinkPolicy (Defaults config) = 0 then Inr (config, w)
      else
        (case resolveDevices e (Defaults config) (Devices config) w of
           Inl x \<Rightarrow> Inl x
         | Inr (devices, w1) \<Rightarrow> Inr (config\<lparr>Devices := devices\<rparr>, w1)))"

subsection \<open>Device lookup and creation\<close>

fun indexFrom :: "nat \<Rightarrow> DiskStats list \<Rightarrow> string \<Rightarrow> int" where
  "indexFrom i [] diskName = - 1"
| "indexFrom i (stats # rest) diskName =
     (if DiskStats.Name stats = diskName then int i else indexFrom (Suc i) rest diskName)"

definition previousDiskStatsIndex :: "world \<Rightarrow> string \<Rightarrow> int" where
  "previousDiskStatsIndex w diskName = indexFrom 0 (previousSnapshots w) diskName"

text \<open>
  \<^verbatim>\<open>deviceConfig\<close> returns a pointer, which is never nil: the first entry of
  \<^verbatim>\<open>config.Devices\<close> with the name, or a fresh entry holding the defaults.
\<close>

fun deviceConfigFrom :: "DeviceConf list \<Rightarrow> string \<Rightarrow> Config \<Rightarrow> DeviceConf option" where
  "deviceConfigFrom [] diskName config =
     Some \<lparr>DeviceConf.Name = diskName, GivenName = [],
           DeviceConf.Idle = DefaultConf.Idle (Defaults config),
           DeviceConf.CommandType = DefaultConf.CommandType (Defaults config)\<rparr>"
| "deviceConfigFrom (device # rest) diskName config =
     (if DeviceConf.Name device = diskName then Some device
      else deviceConfigFrom rest diskName config)"

definition deviceConfig :: "string \<Rightarrow> Config \<Rightarrow> DeviceConf option" where
  "deviceConfig diskName config = deviceConfigFrom (Devices config) diskName config"

definition initDevice :: "env \<Rightarrow> DiskStats \<Rightarrow> Config \<Rightarrow> world \<Rightarrow> DiskStats \<times> world" where
  "initDevice e stats config w =
     (case (case deviceConfig (DiskStats.Name stats) config of
              None \<Rightarrow>
                (DefaultConf.Idle (Defaults config), DefaultConf.CommandType (Defaults config))
            | Some deviceConf \<Rightarrow>
                (DeviceConf.Idle deviceConf, DeviceConf.CommandType deviceConf)) of
        (idle, command) \<Rightarrow>
          (case timeNow e w of (lastIoAt, w1) \<Rightarrow>
             (case timeNow e w1 of (spinUpAt, w2) \<Rightarrow>
                (\<lparr>DiskStats.Name = DiskStats.Name stats,
                  IdleTime = idle,
                  DiskStats.CommandType = command,
                  Reads = Reads stats,
                  Writes = Writes stats,
                  SpinDownAt = zeroTime,
                  SpinUpAt = spinUpAt,
                  LastIoAt = lastIoAt,
                  SpunDown = False\<rparr>, w2))))"

subsection \<open>spindownDisk\<close>

definition spindownDisk :: "env \<Rightarrow> string \<Rightarrow> string \<Rightarrow> world \<Rightarrow> string option \<times> world" where
  "spindownDisk e device command w =
     (if command = SCSI then
        (case StopScsiDevice e device of
           Some err \<Rightarrow>
             (Some (''cannot spindown scsi disk '' @ device @ '':'' @ [CHR 0x0A] @ err @ [CHR 0x0A]),
              emit (CallStopScsi device) (emit (PrintSpindown device) w))
         | None \<Rightarrow> (None, emit (CallStopScsi device) (emit (PrintSpindown device) w)))
      else if command = ATA then
        (case StopAtaDevice e device of
           Some err \<Rightarrow>
             (Some (''cannot spindown ata disk '' @ device @ '':'' @ [CHR 0x0A] @ err @ [CHR 0x0A]),
              emit (CallStopAta device) (emit (PrintSpindown device) w))
         | None \<Rightarrow> (None, emit (CallStopAta device) (emit (PrintSpindown device) w)))
      else (None, emit (PrintSpindown device) w))"

subsection \<open>updateState\<close>

text \<open>
  Lines 99 to 106: \<^verbatim>\<open>if now.Sub(lastNow) > config.SkewTime { ... }\<close>.
\<close>

definition updateState_skew :: "env \<Rightarrow> Config \<Rightarrow> nat \<Rightarrow> world \<Rightarrow> world + world" where
  "updateState_skew e config dsi w =
     (if SkewTime config < Sub (now w) (lastNow w) then
        logSpinupAfterSleep e
          (DiskStats.Name (previousSnapshots w ! dsi)) (LogFile (Defaults config))
          (setPrevious dsi (\<lambda>d. d\<lparr>SpinUpAt := now w, LastIoAt := now w, SpunDown := False\<rparr>) w)
      else Inr w)"

text \<open>
  Lines 108 to 135: \<^verbatim>\<open>ds := previousSnapshots[dsi]\<close> and the comparison of the counters.
  \<open>ds\<close> is a copy: \<^verbatim>\<open>logSpinup\<close> reads the timestamps as they were at line 108.
\<close>

definition updateState_activity ::
  "env \<Rightarrow> DiskStats \<Rightarrow> Config \<Rightarrow> nat \<Rightarrow> world \<Rightarrow> world + world" where
  "updateState_activity e tmp config dsi w =
     (let ds = previousSnapshots w ! dsi in
      if Writes ds = Writes tmp \<and> Reads ds = Reads tmp then
        (if \<not> SpunDown ds then
           (if IdleTime ds \<noteq> 0 \<and> IdleTime ds < Sub (now w) (LastIoAt ds) then
              (case spindownDisk e (''/dev/'' @ DiskStats.Name ds) (DiskStats.CommandType ds) w of
                 (err, w1) \<Rightarrow>
                   Inr (setPrevious dsi (\<lambda>d. d\<lparr>SpinDownAt := now w, SpunDown := True\<rparr>)
                          (case err of
                             Some msg \<Rightarrow> emit (PrintError msg) w1
                           | None \<Rightarrow> w1)))
            else Inr w)
         else Inr w)
      else
        (case (if SpunDown ds then
                 (case logSpinup e ds (LogFile (Defaults config))
                         (emit (PrintSpinup (DiskStats.Name ds)) w) of
                    Inl x \<Rightarrow> Inl x
                  | Inr w1 \<Rightarrow> Inr (setPrevious dsi (\<lambda>d. d\<lparr>SpinUpAt := now w\<rparr>) w1))
               else Inr w) of
           Inl x \<Rightarrow> Inl x
         | Inr w2 \<Rightarrow>
             Inr (setPrevious dsi
                    (\<lambda>d. d\<lparr>Reads := Reads tmp, Writes := Writes tmp,
                            LastIoAt := now w, SpunDown := False\<rparr>) w2)))"

text \<open>Lines 137 to 146: the debug line.\<close>

definition updateState_debug :: "Config \<Rightarrow> nat \<Rightarrow> world \<Rightarrow> world" where
  "updateState_debug config dsi w =
     (if Debug (Defaults config) then
        (let ds = previousSnapshots w ! dsi in
         emit (PrintDebug ds (Sub (now w) (LastIoAt ds))) w)
      else w)"

definition updateState :: "env \<Rightarrow> DiskStats \<Rightarrow> Config \<Rightarrow> world \<Rightarrow> world + world" where
  "updateState e tmp config w =
     (let dsi = previousDiskStatsIndex w (DiskStats.Name tmp) in
      if dsi < 0 then
        (case initDevice e tmp config w of
           (d, w1) \<Rightarrow> Inr (w1\<lparr>previousSnapshots := previousSnapshots w1 @ [d]\<rparr>))
      else
        (case updateState_skew e config (nat dsi) w of
           Inl x \<Rightarrow> Inl x
         | Inr w1 \<Rightarrow>
             (case updateState_activity e tmp config (nat dsi) w1 of
                Inl x \<Rightarrow> Inl x
              | Inr w2 \<Rightarrow> Inr (updateState_debug config (nat dsi) w2))))"

subsection \<open>ObserveDiskActivity\<close>

fun updateStates :: "env \<Rightarrow> DiskStats list \<Rightarrow> Config \<Rightarrow> world \<Rightarrow> world + world" where
  "updateStates e [] config w = Inr w"
| "updateStates e (stats # rest) config w =
     (case updateState e stats config w of
        Inl x \<Rightarrow> Inl x
      | Inr w1 \<Rightarrow> updateStates e rest config w1)"

text \<open>
  \<open>actualSnapshot\<close> is what \<^verbatim>\<open>diskstats.Snapshot()\<close> returned. The configuration is passed
  by pointer and \<^verbatim>\<open>resolveSymlinks\<close> writes to it: the model returns it with the world.
\<close>

definition ObserveDiskActivity ::
  "env \<Rightarrow> DiskStats list \<Rightarrow> Config \<Rightarrow> world \<Rightarrow> world + (Config \<times> world)" where
  "ObserveDiskActivity e actualSnapshot config w =
     (case timeNow e w of (t, w1) \<Rightarrow>
        (case resolveSymlinks e config (w1\<lparr>now := t\<rparr>) of
           Inl x \<Rightarrow> Inl x
         | Inr (config', w2) \<Rightarrow>
             (case updateStates e actualSnapshot config' w2 of
                Inl x \<Rightarrow> Inl x
              | Inr w3 \<Rightarrow> Inr (config', w3\<lparr>lastNow := now w3\<rparr>))))"

subsection \<open>Observing a run\<close>

text \<open>
  \<open>newEvents w w'\<close> is what a run from \<open>w\<close> to \<open>w'\<close> added to the trace. The predicates
  pick out the events the properties speak of: \<^verbatim>\<open>spindownDisk\<close> was entered (its console
  line), an external stop capability was called, an error was printed.
\<close>


definition newEvents :: "world \<Rightarrow> world \<Rightarrow> event list" where
  "newEvents w w' = drop (length (trace w)) (trace w')"

fun isSpindown :: "event \<Rightarrow> bool" where
  "isSpindown (PrintSpindown device) = True"
| "isSpindown ev = False"

fun isStop :: "event \<Rightarrow> bool" where
  "isStop (CallStopScsi device) = True"
| "isStop (CallStopAta device) = True"
| "isStop ev = False"

fun isError :: "event \<Rightarrow> bool" where
  "isError (PrintError msg) = True"
| "isError ev = False"

text \<open>
  A spin-up is reported on the console (\<^verbatim>\<open>logSpinup\<close>'s caller) and in the log file; the
  line \<^verbatim>\<open>logSpinupAfterSleep\<close> appends is the skew event.
\<close>

fun isSpinup :: "event \<Rightarrow> bool" where
  "isSpinup (PrintSpinup name) = True"
| "isSpinup (LogLine file (SpinupText t name running stopped)) = True"
| "isSpinup ev = False"

fun isSkew :: "event \<Rightarrow> bool" where
  "isSkew (LogLine file (SpinupAfterSleepText t name)) = True"
| "isSkew ev = False"

fun isRealPath :: "event \<Rightarrow> bool" where
  "isRealPath (CallRealPath given) = True"
| "isRealPath ev = False"

fun isCannotResolve :: "event \<Rightarrow> bool" where
  "isCannotResolve (PrintCannotResolve given) = True"
| "isCannotResolve ev = False"

text \<open>What a state keeps of the configuration, with the name it is found by.\<close>

definition cached :: "DiskStats \<Rightarrow> string \<times> duration \<times> string" where
  "cached d = (DiskStats.Name d, IdleTime d, DiskStats.CommandType d)"

subsection \<open>A concrete machine\<close>

text \<open>
  One disk \<^verbatim>\<open>sda\<close> with a threshold of 2, last seen busy at time 0, observed at time 3;
  a SCSI stop command that fails and an ATA stop command that succeeds.
\<close>

definition exampleEnv :: env where
  "exampleEnv =
     \<lparr>clock = (\<lambda>n. 4 + int n),
      RealPath = (\<lambda>given. if given = ''/dev/disk/by-label/data'' then Some ''sdb'' else None),
      StopScsiDevice = (\<lambda>device. Some ''input/output error''),
      StopAtaDevice = (\<lambda>device. None),
      appendLine = (\<lambda>file text. True)\<rparr>"

definition exampleConfig :: Config where
  "exampleConfig =
     \<lparr>Devices = [\<lparr>DeviceConf.Name = ''sdb'', GivenName = ''/dev/disk/by-label/data'',
                   DeviceConf.Idle = 5, DeviceConf.CommandType = ''ata''\<rparr>],
      Defaults = \<lparr>DefaultConf.Idle = 2, DefaultConf.CommandType = ''scsi'', Debug = False,
                  LogFile = ''/var/log/hd-idle.log'', SymlinkPolicy = 0\<rparr>,
      SkewTime = 120\<rparr>"

definition disk :: "string \<Rightarrow> duration \<Rightarrow> string \<Rightarrow> nat \<Rightarrow> nat \<Rightarrow> DiskStats" where
  "disk name idle command r wr =
     \<lparr>DiskStats.Name = name, IdleTime = idle, DiskStats.CommandType = command,
      Reads = r, Writes = wr, SpinDownAt = 0, SpinUpAt = 0, LastIoAt = 0, SpunDown = False\<rparr>"

definition exampleWorld :: world where
  "exampleWorld =
     \<lparr>previousSnapshots = [disk ''sda'' 2 ''scsi'' 10 5],
      now = 3, lastNow = 1, ticks = 3, trace = []\<rparr>"

text \<open>
  Two disks that were spun down at time 3, observed at time 4, and the same two after the
  host has slept until time 1000.
\<close>

definition stopped :: "DiskStats \<Rightarrow> DiskStats" where
  "stopped d = d\<lparr>SpinDownAt := 3, SpunDown := True\<rparr>"

definition stoppedWorld :: world where
  "stoppedWorld =
     \<lparr>previousSnapshots = [stopped (disk ''sda'' 2 ''scsi'' 10 5), stopped (disk ''sdb'' 5 ''ata'' 7 7)],
      now = 4, lastNow = 3, ticks = 5, trace = []\<rparr>"


text \<open>A disk whose cached command type is neither \<^verbatim>\<open>scsi\<close> nor \<^verbatim>\<open>ata\<close>.\<close>

definition nvmeWorld :: world where
  "nvmeWorld = exampleWorld\<lparr>previousSnapshots := [disk ''nvme0n1'' 2 ''nvme'' 1 1]\<rparr>"

text \<open>
  A configuration with the symlink policy enabled: one entry whose given name resolves,
  one whose given name does not, one that is resolved already.
\<close>

definition resolverConfig :: Config where
  "resolverConfig =
     \<lparr>Devices = [\<lparr>DeviceConf.Name = [], GivenName = ''/dev/disk/by-label/data'',
                   DeviceConf.Idle = 5, DeviceConf.CommandType = ''ata''\<rparr>,
                 \<lparr>DeviceConf.Name = [], GivenName = ''/dev/disk/by-label/gone'',
                   DeviceConf.Idle = 7, DeviceConf.CommandType = ''scsi''\<rparr>,
                 \<lparr>DeviceConf.Name = ''sdc'', GivenName = ''sdc'',
                   DeviceConf.Idle = 9, DeviceConf.CommandType = ''scsi''\<rparr>],
      Defaults = \<lparr>DefaultConf.Idle = 2, DefaultConf.CommandType = ''scsi'', Debug = True,
                  LogFile = ''/var/log/hd-idle.log'', SymlinkPolicy = 1\<rparr>,
      SkewTime = 120\<rparr>"


definition quietConfig :: Config where
  "quietConfig = exampleConfig\<lparr>Defaults := (Defaults exampleConfig)\<lparr>LogFile := []\<rparr>\<rparr>"

definition emptyWorld :: world where
  "emptyWorld = \<lparr>previousSnapshots = [], now = 4, lastNow = 3, ticks = 1, trace = []\<rparr>"

section \<open>Basic facts\<close>

lemmas example_defs = exampleEnv_def exampleConfig_def exampleWorld_def disk_def
  stopped_def stoppedWorld_def

lemmas Sub_defs = Sub_def maxDuration_def minDuration_def Let_def

lemmas eval_defs = example_defs
  ObserveDiskActivity_def timeNow_def resolveSymlinks_def updateState_def
  previousDiskStatsIndex_def updateState_skew_def updateState_activity_def
  updateState_debug_def logSpinupAfterSleep_def logSpinup_def logToFile_def
  setPrevious_def emit_def spindownDisk_def initDevice_def deviceConfig_def
  SCSI_def ATA_def zeroTime_def Sub_defs


lemma emit_fields [simp]:
  "trace (emit ev w) = trace w @ [ev]"
  "previousSnapshots (emit ev w) = previousSnapshots w"
  "now (emit ev w) = now w"
  "lastNow (emit ev w) = lastNow w"
  "ticks (emit ev w) = ticks w"
  by (simp_all add: emit_def)

lemma setPrevious_fields [simp]:
  "trace (setPrevious dsi f w) = trace w"
  "previousSnapshots (setPrevious dsi f w) = (previousSnapshots w)[dsi := f (previousSnapshots w ! dsi)]"
  "now (setPrevious dsi f w) = now w"
  "lastNow (setPrevious dsi f w) = lastNow w"
  "ticks (setPrevious dsi f w) = ticks w"
  by (simp_all add: setPrevious_def)

lemma newEvents_append [simp]: "trace w' = trace w @ evs \<Longrightarrow> newEvents w w' = evs"
  by (simp add: newEvents_def)

lemma newEvents_self [simp]: "newEvents w w = []"
  by (simp add: newEvents_def)

lemma spindownDisk_unrecognized:
  "command \<noteq> SCSI \<Longrightarrow> command \<noteq> ATA \<Longrightarrow>
   spindownDisk e device command w = (None, emit (PrintSpindown device) w)"
  by (simp add: spindownDisk_def)

lemma updateState_debug_fields [simp]:
  "previousSnapshots (updateState_debug config dsi w) = previousSnapshots w"
  "now (updateState_debug config dsi w) = now w"
  "lastNow (updateState_debug config dsi w) = lastNow w"
  "ticks (updateState_debug config dsi w) = ticks w"
  by (simp_all add: updateState_debug_def Let_def)

lemma updateState_known:
  "previousDiskStatsIndex w (DiskStats.Name tmp) = int dsi \<Longrightarrow>
   updateState e tmp config w =
     (case updateState_skew e config dsi w of
        Inl x \<Rightarrow> Inl x
      | Inr w1 \<Rightarrow>
          (case updateState_activity e tmp config dsi w1 of
             Inl x \<Rightarrow> Inl x
           | Inr w2 \<Rightarrow> Inr (updateState_debug config dsi w2)))"
  by (simp add: updateState_def Let_def cong: sum.case_cong)

lemma updateState_skew_fields:
  assumes "updateState_skew e config dsi w = Inr w1"
  shows "now w1 = now w" "lastNow w1 = lastNow w" "ticks w1 = ticks w"
    "length (previousSnapshots w1) = length (previousSnapshots w)"
  using assms
  by (auto simp: updateState_skew_def logSpinupAfterSleep_def logToFile_def split: if_splits)

lemma indexFrom_absent: "(indexFrom i xs n < 0) = (n \<notin> set (map DiskStats.Name xs))"
proof (induction i xs n rule: indexFrom.induct)
  case (1 i diskName)
  then show ?case by simp
next
  case (2 i stats rest diskName)
  then show ?case by auto
qed

lemma indexFrom_first:
  "n \<in> set (map DiskStats.Name xs) \<Longrightarrow>
   \<exists>k<length xs. indexFrom i xs n = int (i + k) \<and> DiskStats.Name (xs ! k) = n \<and>
     n \<notin> set (map DiskStats.Name (take k xs))"
proof (induction i xs n rule: indexFrom.induct)
  case (1 i diskName)
  then show ?case by simp
next
  case (2 i stats rest diskName)
  show ?case
  proof (cases "DiskStats.Name stats = diskName")
    case True
    then show ?thesis by (intro exI [of _ 0]) simp
  next
    case False
    with 2 obtain k where k: "k < length rest" "indexFrom (Suc i) rest diskName = int (Suc i + k)"
      "DiskStats.Name (rest ! k) = diskName" "diskName \<notin> set (map DiskStats.Name (take k rest))"
      by auto
    with False show ?thesis by (intro exI [of _ "Suc k"]) simp
  qed
qed

lemma previousDiskStatsIndex_cases:
  "previousDiskStatsIndex w n = int dsi \<Longrightarrow>
   dsi < length (previousSnapshots w) \<and> DiskStats.Name (previousSnapshots w ! dsi) = n \<and>
   n \<notin> set (map DiskStats.Name (take dsi (previousSnapshots w)))"
proof -
  assume a: "previousDiskStatsIndex w n = int dsi"
  then have "\<not> indexFrom 0 (previousSnapshots w) n < 0"
    by (simp add: previousDiskStatsIndex_def)
  then have "n \<in> set (map DiskStats.Name (previousSnapshots w))"
    by (simp only: indexFrom_absent) simp
  from indexFrom_first [OF this, of 0] a show ?thesis
    by (auto simp: previousDiskStatsIndex_def)
qed

lemma indexFrom_append_new:
  "n \<notin> set (map DiskStats.Name xs) \<Longrightarrow> DiskStats.Name d = n \<Longrightarrow>
   indexFrom i (xs @ [d]) n = int (i + length xs)"
  by (induction xs arbitrary: i) auto

section \<open>The blocks of updateState\<close>


lemma spindownDisk_result:
  "\<exists>err evs. spindownDisk e device command w = (err, w\<lparr>trace := trace w @ PrintSpindown device # evs\<rparr>) \<and>
     filter isSpindown evs = [] \<and> filter isError evs = [] \<and> filter isSpinup evs = [] \<and>
     filter isSkew evs = [] \<and> length (filter isStop evs) \<le> 1 \<and>
     (command \<noteq> SCSI \<and> command \<noteq> ATA \<longrightarrow> evs = [] \<and> err = None)"
  by (auto simp: spindownDisk_def emit_def split: option.splits)

lemma updateState_skew_none:
  "\<not> SkewTime config < Sub (now w) (lastNow w) \<Longrightarrow> updateState_skew e config dsi w = Inr w"
  by (simp add: updateState_skew_def)

lemma updateState_skew_clears:
  assumes "updateState_skew e config dsi w = Inr w1" and "dsi < length (previousSnapshots w)"
    and "SpunDown (previousSnapshots w1 ! dsi)"
  shows "w1 = w" and "\<not> SkewTime config < Sub (now w) (lastNow w)"
  using assms
  by (auto simp: updateState_skew_def logSpinupAfterSleep_def logToFile_def split: if_splits)

text \<open>The comparison of the counters, case by case.\<close>

lemma activity_fires:
  assumes "previousSnapshots w ! dsi = ds"
    and "Reads ds = Reads tmp" and "Writes ds = Writes tmp" and "\<not> SpunDown ds"
    and "IdleTime ds \<noteq> 0" and "IdleTime ds < Sub (now w) (LastIoAt ds)"
  shows "\<exists>err evs. 
     spindownDisk e (''/dev/'' @ DiskStats.Name ds) (DiskStats.CommandType ds) w =
       (err, w\<lparr>trace := trace w @ PrintSpindown (''/dev/'' @ DiskStats.Name ds) # evs\<rparr>) \<and>
     updateState_activity e tmp config dsi w =
       Inr (w\<lparr>previousSnapshots :=
                (previousSnapshots w)[dsi := ds\<lparr>SpinDownAt := now w, SpunDown := True\<rparr>],
              trace := trace w @ PrintSpindown (''/dev/'' @ DiskStats.Name ds) # evs @
                (case err of Some msg \<Rightarrow> [PrintError msg] | None \<Rightarrow> [])\<rparr>) \<and>
     filter isSpindown evs = [] \<and> filter isError evs = [] \<and> filter isSpinup evs = [] \<and>
     filter isSkew evs = [] \<and> length (filter isStop evs) \<le> 1 \<and>
     (DiskStats.CommandType ds \<noteq> SCSI \<and> DiskStats.CommandType ds \<noteq> ATA \<longrightarrow> evs = [] \<and> err = None)"
proof -
  from spindownDisk_result [of e "''/dev/'' @ DiskStats.Name ds" "DiskStats.CommandType ds" w]
  obtain err evs where sp:
    "spindownDisk e (''/dev/'' @ DiskStats.Name ds) (DiskStats.CommandType ds) w =
       (err, w\<lparr>trace := trace w @ PrintSpindown (''/dev/'' @ DiskStats.Name ds) # evs\<rparr>)"
    "filter isSpindown evs = []" "filter isError evs = []" "filter isSpinup evs = []"
    "filter isSkew evs = []" "length (filter isStop evs) \<le> 1"
    "DiskStats.CommandType ds \<noteq> SCSI \<and> DiskStats.CommandType ds \<noteq> ATA \<longrightarrow> evs = [] \<and> err = None"
    by blast
  have "updateState_activity e tmp config dsi w =
       Inr (w\<lparr>previousSnapshots :=
                (previousSnapshots w)[dsi := ds\<lparr>SpinDownAt := now w, SpunDown := True\<rparr>],
              trace := trace w @ PrintSpindown (''/dev/'' @ DiskStats.Name ds) # evs @
                (case err of Some msg \<Rightarrow> [PrintError msg] | None \<Rightarrow> [])\<rparr>)"
    using assms sp(1)
    by (cases err) (simp_all add: updateState_activity_def Let_def setPrevious_def emit_def)
  with sp show ?thesis by blast
qed

lemma activity_idle:
  assumes "previousSnapshots w ! dsi = ds"
    and "Reads ds = Reads tmp" and "Writes ds = Writes tmp"
    and "SpunDown ds \<or> IdleTime ds = 0 \<or> \<not> IdleTime ds < Sub (now w) (LastIoAt ds)"
  shows "updateState_activity e tmp config dsi w = Inr w"
  using assms by (auto simp: updateState_activity_def Let_def)

lemma activity_changed_running:
  assumes "previousSnapshots w ! dsi = ds"
    and "Reads ds \<noteq> Reads tmp \<or> Writes ds \<noteq> Writes tmp" and "\<not> SpunDown ds"
  shows "updateState_activity e tmp config dsi w =
     Inr (w\<lparr>previousSnapshots := (previousSnapshots w)[dsi :=
        ds\<lparr>Reads := Reads tmp, Writes := Writes tmp, LastIoAt := now w, SpunDown := False\<rparr>]\<rparr>)"
  using assms by (auto simp: updateState_activity_def Let_def setPrevious_def)

lemma activity_changed_stopped:
  assumes "previousSnapshots w ! dsi = ds"
    and "Reads ds \<noteq> Reads tmp \<or> Writes ds \<noteq> Writes tmp" and "SpunDown ds"
    and "dsi < length (previousSnapshots w)"
  shows "updateState_activity e tmp config dsi w =
     (if LogFile (Defaults config) = [] then
        Inr (w\<lparr>previousSnapshots := (previousSnapshots w)[dsi :=
               ds\<lparr>SpinUpAt := now w, Reads := Reads tmp, Writes := Writes tmp,
                  LastIoAt := now w, SpunDown := False\<rparr>],
             ticks := Suc (ticks w),
             trace := trace w @ [PrintSpinup (DiskStats.Name ds)]\<rparr>)
      else if appendLine e (LogFile (Defaults config))
                (SpinupText (clock e (ticks w)) (DiskStats.Name ds)
                   (Sub (SpinDownAt ds) (SpinUpAt ds)) (Sub (clock e (ticks w)) (SpinDownAt ds))) then
        Inr (w\<lparr>previousSnapshots := (previousSnapshots w)[dsi :=
               ds\<lparr>SpinUpAt := now w, Reads := Reads tmp, Writes := Writes tmp,
                  LastIoAt := now w, SpunDown := False\<rparr>],
             ticks := Suc (ticks w),
             trace := trace w @ [PrintSpinup (DiskStats.Name ds),
               LogLine (LogFile (Defaults config))
                 (SpinupText (clock e (ticks w)) (DiskStats.Name ds)
                    (Sub (SpinDownAt ds) (SpinUpAt ds)) (Sub (clock e (ticks w)) (SpinDownAt ds)))]\<rparr>)
      else
        Inl (w\<lparr>ticks := Suc (ticks w),
             trace := trace w @ [PrintSpinup (DiskStats.Name ds), Fatalf (LogFile (Defaults config))]\<rparr>))"
  using assms
  by (auto simp: updateState_activity_def Let_def setPrevious_def logSpinup_def timeNow_def
      logToFile_def emit_def)

lemma debug_result:
  "\<exists>evs. updateState_debug config dsi w = w\<lparr>trace := trace w @ evs\<rparr> \<and>
     filter isSpindown evs = [] \<and> filter isStop evs = [] \<and> filter isError evs = [] \<and>
     filter isSpinup evs = [] \<and> filter isSkew evs = []"
proof (cases "Debug (Defaults config)")
  case True
  then show ?thesis
    by (intro exI [of _ "[PrintDebug (previousSnapshots w ! dsi)
          (Sub (now w) (LastIoAt (previousSnapshots w ! dsi)))]"])
      (simp add: updateState_debug_def Let_def emit_def)
next
  case False
  then show ?thesis
    by (intro exI [of _ "[]"]) (simp add: updateState_debug_def)
qed

lemma cached_update [simp]:
  "cached (d\<lparr>SpinUpAt := a\<rparr>) = cached d"
  "cached (d\<lparr>LastIoAt := b\<rparr>) = cached d"
  "cached (d\<lparr>SpunDown := c\<rparr>) = cached d"
  "cached (d\<lparr>SpinDownAt := a\<rparr>) = cached d"
  "cached (d\<lparr>Reads := r\<rparr>) = cached d"
  "cached (d\<lparr>Writes := r\<rparr>) = cached d"
  by (simp_all add: cached_def)

lemma map_cached_update:
  assumes "cached v = cached (xs ! i)"
  shows "map cached (xs[i := v]) = map cached xs"
proof (cases "i < length xs")
  case True
  with assms show ?thesis by (simp add: map_update list_update_same_conv)
next
  case False
  then have "length xs \<le> i" by simp
  then show ?thesis by (simp add: list_update_beyond)
qed

lemma skew_fired:
  assumes "SkewTime config < Sub (now w) (lastNow w)"
  shows "updateState_skew e config dsi w =
     (if LogFile (Defaults config) = [] then
        Inr (w\<lparr>previousSnapshots := (previousSnapshots w)[dsi :=
               (previousSnapshots w ! dsi)\<lparr>SpinUpAt := now w, LastIoAt := now w, SpunDown := False\<rparr>]\<rparr>)
      else if appendLine e (LogFile (Defaults config))
                (SpinupAfterSleepText (now w) (DiskStats.Name (previousSnapshots w ! dsi))) then
        Inr (w\<lparr>previousSnapshots := (previousSnapshots w)[dsi :=
               (previousSnapshots w ! dsi)\<lparr>SpinUpAt := now w, LastIoAt := now w, SpunDown := False\<rparr>],
             trace := trace w @ [LogLine (LogFile (Defaults config))
               (SpinupAfterSleepText (now w) (DiskStats.Name (previousSnapshots w ! dsi)))]\<rparr>)
      else
        Inl (w\<lparr>previousSnapshots := (previousSnapshots w)[dsi :=
               (previousSnapshots w ! dsi)\<lparr>SpinUpAt := now w, LastIoAt := now w, SpunDown := False\<rparr>],
             trace := trace w @ [Fatalf (LogFile (Defaults config))]\<rparr>))"
proof (cases "dsi < length (previousSnapshots w)")
  case True
  with assms show ?thesis
    by (simp add: updateState_skew_def logSpinupAfterSleep_def logToFile_def setPrevious_def emit_def)
next
  case False
  with assms show ?thesis
    by (simp add: updateState_skew_def logSpinupAfterSleep_def logToFile_def setPrevious_def emit_def)
qed

lemma skew_result:
  assumes "updateState_skew e config dsi w = r" and "r = Inl w1 \<or> r = Inr w1"
  shows "\<exists>evs. trace w1 = trace w @ evs \<and>
     filter isSpindown evs = [] \<and> filter isStop evs = [] \<and> filter isError evs = [] \<and>
     filter isSpinup evs = [] \<and>
     now w1 = now w \<and> lastNow w1 = lastNow w \<and> ticks w1 = ticks w \<and>
     map cached (previousSnapshots w1) = map cached (previousSnapshots w)"
proof (cases "SkewTime config < Sub (now w) (lastNow w)")
  case True
  from assms show ?thesis
    unfolding skew_fired [OF True]
    by (auto simp: map_cached_update split: if_splits)
next
  case False
  with assms show ?thesis by (auto simp: updateState_skew_none)
qed

lemma known_in_range:
  assumes "previousDiskStatsIndex w n = int dsi" and "updateState_skew e config dsi w = Inr w1"
  shows "dsi < length (previousSnapshots w1)" and "dsi < length (previousSnapshots w)"
  using previousDiskStatsIndex_cases [OF assms(1)] updateState_skew_fields(4) [OF assms(2)]
  by simp_all

lemma updateState_fires:
  assumes "previousDiskStatsIndex w (DiskStats.Name tmp) = int dsi"
    and "updateState_skew e config dsi w = Inr w1"
    and "previousSnapshots w1 ! dsi = ds"
    and "Reads ds = Reads tmp" and "Writes ds = Writes tmp" and "\<not> SpunDown ds"
    and "IdleTime ds \<noteq> 0" and "IdleTime ds < Sub (now w) (LastIoAt ds)"
  shows "\<exists>w' err evs sk dbg.
     updateState e tmp config w = Inr w' \<and>
     spindownDisk e (''/dev/'' @ DiskStats.Name ds) (DiskStats.CommandType ds) w1 =
       (err, w1\<lparr>trace := trace w1 @ PrintSpindown (''/dev/'' @ DiskStats.Name ds) # evs\<rparr>) \<and>
     previousSnapshots w' =
       (previousSnapshots w1)[dsi := ds\<lparr>SpinDownAt := now w, SpunDown := True\<rparr>] \<and>
     trace w' = trace w @ sk @ PrintSpindown (''/dev/'' @ DiskStats.Name ds) # evs @
       (case err of Some msg \<Rightarrow> [PrintError msg] | None \<Rightarrow> []) @ dbg \<and>
     now w' = now w \<and> lastNow w' = lastNow w \<and> ticks w' = ticks w \<and>
     filter isSpindown sk = [] \<and> filter isStop sk = [] \<and> filter isError sk = [] \<and>
     filter isSpinup sk = [] \<and>
     filter isSpindown evs = [] \<and> length (filter isStop evs) \<le> 1 \<and> filter isError evs = [] \<and>
     filter isSpinup evs = [] \<and>
     filter isSpindown dbg = [] \<and> filter isStop dbg = [] \<and> filter isError dbg = [] \<and>
     filter isSpinup dbg = [] \<and>
     (DiskStats.CommandType ds \<noteq> SCSI \<and> DiskStats.CommandType ds \<noteq> ATA \<longrightarrow>
        evs = [] \<and> err = None)"
proof -
  from skew_result [OF assms(2)] obtain sk where sk:
    "trace w1 = trace w @ sk" "filter isSpindown sk = []" "filter isStop sk = []"
    "filter isError sk = []" "filter isSpinup sk = []"
    "now w1 = now w" "lastNow w1 = lastNow w" "ticks w1 = ticks w"
    by blast
  from activity_fires [where e = e and config = config, OF assms(3-7)] assms(8) sk(6)
  obtain err evs where act:
    "spindownDisk e (''/dev/'' @ DiskStats.Name ds) (DiskStats.CommandType ds) w1 =
       (err, w1\<lparr>trace := trace w1 @ PrintSpindown (''/dev/'' @ DiskStats.Name ds) # evs\<rparr>)"
    "updateState_activity e tmp config dsi w1 =
       Inr (w1\<lparr>previousSnapshots :=
                (previousSnapshots w1)[dsi := ds\<lparr>SpinDownAt := now w1, SpunDown := True\<rparr>],
              trace := trace w1 @ PrintSpindown (''/dev/'' @ DiskStats.Name ds) # evs @
                (case err of Some msg \<Rightarrow> [PrintError msg] | None \<Rightarrow> [])\<rparr>)"
    "filter isSpindown evs = []" "filter isError evs = []" "filter isSpinup evs = []"
    "length (filter isStop evs) \<le> 1"
    "DiskStats.CommandType ds \<noteq> SCSI \<and> DiskStats.CommandType ds \<noteq> ATA \<longrightarrow> evs = [] \<and> err = None"
    by auto
  let ?w2 = "w1\<lparr>previousSnapshots :=
                (previousSnapshots w1)[dsi := ds\<lparr>SpinDownAt := now w1, SpunDown := True\<rparr>],
              trace := trace w1 @ PrintSpindown (''/dev/'' @ DiskStats.Name ds) # evs @
                (case err of Some msg \<Rightarrow> [PrintError msg] | None \<Rightarrow> [])\<rparr>"
  from debug_result [of config dsi ?w2] obtain dbg where dbg:
    "updateState_debug config dsi ?w2 = ?w2\<lparr>trace := trace ?w2 @ dbg\<rparr>"
    "filter isSpindown dbg = []" "filter isStop dbg = []" "filter isError dbg = []"
    "filter isSpinup dbg = []"
    by blast
  have "updateState e tmp config w = Inr (?w2\<lparr>trace := trace ?w2 @ dbg\<rparr>)"
    using dbg(1) by (simp add: updateState_known [OF assms(1)] assms(2) act(2))
  with sk act dbg show ?thesis
    by (intro exI [of _ "?w2\<lparr>trace := trace ?w2 @ dbg\<rparr>"] exI [of _ err] exI [of _ evs]
        exI [of _ sk] exI [of _ dbg]) simp
qed

lemma updateState_idle:
  assumes "previousDiskStatsIndex w (DiskStats.Name tmp) = int dsi"
    and "updateState_skew e config dsi w = Inr w1"
    and "previousSnapshots w1 ! dsi = ds"
    and "Reads ds = Reads tmp" and "Writes ds = Writes tmp"
    and "SpunDown ds \<or> IdleTime ds = 0 \<or> \<not> IdleTime ds < Sub (now w) (LastIoAt ds)"
  shows "\<exists>w' evs.
     updateState e tmp config w = Inr w' \<and>
     previousSnapshots w' = previousSnapshots w1 \<and>
     trace w' = trace w @ evs \<and>
     now w' = now w \<and> lastNow w' = lastNow w \<and> ticks w' = ticks w \<and>
     filter isSpindown evs = [] \<and> filter isStop evs = [] \<and> filter isError evs = [] \<and>
     filter isSpinup evs = []"
proof -
  from skew_result [OF assms(2)] obtain sk where sk:
    "trace w1 = trace w @ sk" "filter isSpindown sk = []" "filter isStop sk = []"
    "filter isError sk = []" "filter isSpinup sk = []"
    "now w1 = now w" "lastNow w1 = lastNow w" "ticks w1 = ticks w"
    by blast
  have act: "updateState_activity e tmp config dsi w1 = Inr w1"
    using assms(3-6) sk(6) by (intro activity_idle [where ds = ds]) simp_all
  from debug_result [of config dsi w1] obtain dbg where dbg:
    "updateState_debug config dsi w1 = w1\<lparr>trace := trace w1 @ dbg\<rparr>"
    "filter isSpindown dbg = []" "filter isStop dbg = []" "filter isError dbg = []"
    "filter isSpinup dbg = []"
    by blast
  have "updateState e tmp config w = Inr (w1\<lparr>trace := trace w1 @ dbg\<rparr>)"
    using dbg(1) by (simp add: updateState_known [OF assms(1)] assms(2) act)
  with sk dbg show ?thesis
    by (intro exI [of _ "w1\<lparr>trace := trace w1 @ dbg\<rparr>"] exI [of _ "sk @ dbg"]) simp
qed




lemma activity_changed_events:
  assumes "updateState_activity e tmp config dsi w = Inl w' \<or>
      updateState_activity e tmp config dsi w = Inr w'"
    and "Reads (previousSnapshots w ! dsi) \<noteq> Reads tmp \<or>
      Writes (previousSnapshots w ! dsi) \<noteq> Writes tmp"
  shows "\<exists>evs. trace w' = trace w @ evs \<and> filter isStop evs = [] \<and>
     filter isSpindown evs = [] \<and> filter isError evs = [] \<and> filter isSkew evs = []"
proof (cases "SpunDown (previousSnapshots w ! dsi)")
  case False
  from activity_changed_running [OF refl assms(2) False, of e config] assms(1)
  show ?thesis by auto
next
  case True
  have "logSpinup e (previousSnapshots w ! dsi) (LogFile (Defaults config))
          (emit (PrintSpinup (DiskStats.Name (previousSnapshots w ! dsi))) w) = Inl w' \<or>
        (\<exists>v. logSpinup e (previousSnapshots w ! dsi) (LogFile (Defaults config))
          (emit (PrintSpinup (DiskStats.Name (previousSnapshots w ! dsi))) w) = Inr v \<and>
          trace w' = trace v)"
    using assms True
    by (auto simp: updateState_activity_def Let_def split: sum.splits)
  then show ?thesis
    by (auto simp: logSpinup_def timeNow_def logToFile_def emit_def split: if_splits)
qed

lemma spindown_only_when_fires:
  assumes known: "previousDiskStatsIndex w (DiskStats.Name tmp) = int dsi"
    and out: "updateState e tmp config w = Inl w' \<or> updateState e tmp config w = Inr w'"
    and ev: "filter isStop (newEvents w w') \<noteq> [] \<or> filter isSpindown (newEvents w w') \<noteq> []"
  shows "\<exists>w1. updateState_skew e config dsi w = Inr w1 \<and>
     Reads (previousSnapshots w1 ! dsi) = Reads tmp \<and>
     Writes (previousSnapshots w1 ! dsi) = Writes tmp \<and>
     \<not> SpunDown (previousSnapshots w1 ! dsi) \<and>
     IdleTime (previousSnapshots w1 ! dsi) \<noteq> 0 \<and>
     IdleTime (previousSnapshots w1 ! dsi) < Sub (now w) (LastIoAt (previousSnapshots w1 ! dsi))"
proof (cases "updateState_skew e config dsi w")
  case (Inl x)
  with out have "w' = x" by (simp add: updateState_known [OF known])
  with skew_result [OF Inl, of x] ev show ?thesis by auto
next
  case (Inr w1)
  from skew_result [OF Inr, of w1] obtain sk where sk:
    "trace w1 = trace w @ sk" "filter isSpindown sk = []" "filter isStop sk = []" "now w1 = now w"
    by auto
  let ?ds = "previousSnapshots w1 ! dsi"
  show ?thesis
  proof (cases "Reads ?ds = Reads tmp \<and> Writes ?ds = Writes tmp")
    case same: True
    show ?thesis
    proof (cases "SpunDown ?ds \<or> IdleTime ?ds = 0 \<or> \<not> IdleTime ?ds < Sub (now w) (LastIoAt ?ds)")
      case True
      from updateState_idle [OF known Inr refl _ _ True] same out ev
      show ?thesis by auto
    next
      case False
      with Inr same show ?thesis by blast
    qed
  next
    case False
    then have ch: "Reads ?ds \<noteq> Reads tmp \<or> Writes ?ds \<noteq> Writes tmp" by blast
    show ?thesis
    proof (cases "updateState_activity e tmp config dsi w1")
      case (Inl x)
      with out Inr have "w' = x" by (simp add: updateState_known [OF known])
      with activity_changed_events [OF disjI1 [OF Inl] ch] sk ev show ?thesis by auto
    next
      case act: (Inr v)
      from activity_changed_events [OF disjI2 [OF act] ch] obtain evs where evs:
        "trace v = trace w1 @ evs" "filter isStop evs = []" "filter isSpindown evs = []"
        by blast
      from debug_result [of config dsi v] obtain dbg where dbg:
        "updateState_debug config dsi v = v\<lparr>trace := trace v @ dbg\<rparr>"
        "filter isSpindown dbg = []" "filter isStop dbg = []" by blast
      from out Inr act have "w' = v\<lparr>trace := trace v @ dbg\<rparr>"
        by (simp add: updateState_known [OF known] dbg(1))
      then have "trace w' = trace w @ (sk @ evs @ dbg)"
        using sk(1) evs(1) by simp
      then have "newEvents w w' = sk @ evs @ dbg" by (rule newEvents_append)
      with sk evs dbg ev show ?thesis by simp
    qed
  qed
qed

lemma names_of_cached:
  "map cached xs = map cached ys \<Longrightarrow> map DiskStats.Name xs = map DiskStats.Name ys"
proof -
  assume "map cached xs = map cached ys"
  then have "map fst (map cached xs) = map fst (map cached ys)" by simp
  then show ?thesis by (simp add: cached_def comp_def)
qed

section \<open>What a call keeps\<close>


lemma setPrevious_cached:
  assumes "\<And>d. cached (f d) = cached d"
  shows "map cached (previousSnapshots (setPrevious i f w)) = map cached (previousSnapshots w)"
  by (simp add: map_cached_update assms)

lemma logToFile_frame:
  assumes "logToFile e file text w = Inl w' \<or> logToFile e file text w = Inr w'"
  shows "previousSnapshots w' = previousSnapshots w" "now w' = now w" "lastNow w' = lastNow w"
    "ticks w' = ticks w"
  using assms by (auto simp: logToFile_def split: if_splits)

lemma logSpinup_frame:
  assumes "logSpinup e ds file w = Inl w' \<or> logSpinup e ds file w = Inr w'"
  shows "previousSnapshots w' = previousSnapshots w" "now w' = now w" "lastNow w' = lastNow w"
  using assms by (auto simp: logSpinup_def timeNow_def logToFile_def split: if_splits)

lemma spindownDisk_frame:
  assumes "spindownDisk e device command w = (err, w')"
  shows "previousSnapshots w' = previousSnapshots w" "now w' = now w" "lastNow w' = lastNow w"
    "ticks w' = ticks w"
  using assms by (auto simp: spindownDisk_def split: if_splits option.splits)

lemma activity_cached:
  assumes "updateState_activity e tmp config dsi w = Inl w' \<or>
      updateState_activity e tmp config dsi w = Inr w'"
  shows "map cached (previousSnapshots w') = map cached (previousSnapshots w)"
proof -
  let ?ds = "previousSnapshots w ! dsi"
  show ?thesis
  proof (cases "Reads ?ds = Reads tmp \<and> Writes ?ds = Writes tmp")
    case same: True
    show ?thesis
    proof (cases "SpunDown ?ds \<or> IdleTime ?ds = 0 \<or> \<not> IdleTime ?ds < Sub (now w) (LastIoAt ?ds)")
      case True
      from activity_idle [OF refl _ _ True, of tmp e config] same assms show ?thesis by auto
    next
      case False
      obtain err w1 where sp: "spindownDisk e (''/dev/'' @ DiskStats.Name ?ds)
          (DiskStats.CommandType ?ds) w = (err, w1)"
        by (cases "spindownDisk e (''/dev/'' @ DiskStats.Name ?ds) (DiskStats.CommandType ?ds) w")
      have "w' = setPrevious dsi (\<lambda>d. d\<lparr>SpinDownAt := now w, SpunDown := True\<rparr>)
                   (case err of Some msg \<Rightarrow> emit (PrintError msg) w1 | None \<Rightarrow> w1)"
        using assms same False sp by (auto simp: updateState_activity_def Let_def)
      then show ?thesis
        using spindownDisk_frame(1) [OF sp]
        by (cases err) (simp_all add: map_cached_update)
    qed
  next
    case False
    then have ch: "Reads ?ds \<noteq> Reads tmp \<or> Writes ?ds \<noteq> Writes tmp" by blast
    show ?thesis
    proof (cases "SpunDown ?ds")
      case sd: False
      from activity_changed_running [OF refl ch sd, of e config] assms
      show ?thesis by (auto simp: map_cached_update)
    next
      case sd: True
      let ?l = "logSpinup e ?ds (LogFile (Defaults config)) (emit (PrintSpinup (DiskStats.Name ?ds)) w)"
      have "?l = Inl w' \<or>
          (\<exists>v. ?l = Inr v \<and>
             w' = setPrevious dsi
                    (\<lambda>d. d\<lparr>Reads := Reads tmp, Writes := Writes tmp,
                            LastIoAt := now w, SpunDown := False\<rparr>)
                    (setPrevious dsi (\<lambda>d. d\<lparr>SpinUpAt := now w\<rparr>) v))"
        using assms False sd
        by (auto simp: updateState_activity_def Let_def split: sum.splits)
      then show ?thesis
      proof
        assume "?l = Inl w'"
        from logSpinup_frame(1) [OF disjI1 [OF this]] show ?thesis by simp
      next
        assume "\<exists>v. ?l = Inr v \<and>
             w' = setPrevious dsi
                    (\<lambda>d. d\<lparr>Reads := Reads tmp, Writes := Writes tmp,
                            LastIoAt := now w, SpunDown := False\<rparr>)
                    (setPrevious dsi (\<lambda>d. d\<lparr>SpinUpAt := now w\<rparr>) v)"
        then obtain v where v: "?l = Inr v"
          "w' = setPrevious dsi
                    (\<lambda>d. d\<lparr>Reads := Reads tmp, Writes := Writes tmp,
                            LastIoAt := now w, SpunDown := False\<rparr>)
                    (setPrevious dsi (\<lambda>d. d\<lparr>SpinUpAt := now w\<rparr>) v)" by blast
        from logSpinup_frame(1) [OF disjI2 [OF v(1)]] have "previousSnapshots v = previousSnapshots w"
          by simp
        then show ?thesis
          unfolding v(2) by (simp add: setPrevious_cached del: setPrevious_fields)
      qed
    qed
  qed
qed


lemma deviceConfigFrom_find:
  "deviceConfigFrom devices diskName config =
     Some (case find (\<lambda>d. DeviceConf.Name d = diskName) devices of
             Some d \<Rightarrow> d
           | None \<Rightarrow>
               \<lparr>DeviceConf.Name = diskName, GivenName = [],
                DeviceConf.Idle = DefaultConf.Idle (Defaults config),
                DeviceConf.CommandType = DefaultConf.CommandType (Defaults config)\<rparr>)"
  by (induction devices) simp_all

lemma initDevice_result:
  "\<exists>dc. deviceConfig (DiskStats.Name stats) config = Some dc \<and>
     initDevice e stats config w =
       (\<lparr>DiskStats.Name = DiskStats.Name stats, IdleTime = DeviceConf.Idle dc,
         DiskStats.CommandType = DeviceConf.CommandType dc,
         Reads = Reads stats, Writes = Writes stats, SpinDownAt = zeroTime,
         SpinUpAt = clock e (Suc (ticks w)), LastIoAt = clock e (ticks w), SpunDown = False\<rparr>,
        w\<lparr>ticks := Suc (Suc (ticks w))\<rparr>)"
  by (simp add: deviceConfig_def deviceConfigFrom_find initDevice_def timeNow_def)

lemma updateState_unknown:
  assumes "previousDiskStatsIndex w (DiskStats.Name tmp) < 0"
  shows "\<exists>dc. deviceConfig (DiskStats.Name tmp) config = Some dc \<and>
     updateState e tmp config w =
       Inr (w\<lparr>previousSnapshots := previousSnapshots w @
              [\<lparr>DiskStats.Name = DiskStats.Name tmp, IdleTime = DeviceConf.Idle dc,
                DiskStats.CommandType = DeviceConf.CommandType dc,
                Reads = Reads tmp, Writes = Writes tmp, SpinDownAt = zeroTime,
                SpinUpAt = clock e (Suc (ticks w)), LastIoAt = clock e (ticks w),
                SpunDown = False\<rparr>],
             ticks := Suc (Suc (ticks w))\<rparr>)"
proof -
  from initDevice_result [of tmp config e w] obtain dc where dc:
    "deviceConfig (DiskStats.Name tmp) config = Some dc"
    "initDevice e tmp config w =
       (\<lparr>DiskStats.Name = DiskStats.Name tmp, IdleTime = DeviceConf.Idle dc,
         DiskStats.CommandType = DeviceConf.CommandType dc,
         Reads = Reads tmp, Writes = Writes tmp, SpinDownAt = zeroTime,
         SpinUpAt = clock e (Suc (ticks w)), LastIoAt = clock e (ticks w), SpunDown = False\<rparr>,
        w\<lparr>ticks := Suc (Suc (ticks w))\<rparr>)"
    by blast
  from assms dc(2) have "updateState e tmp config w =
       Inr (w\<lparr>previousSnapshots := previousSnapshots w @
              [\<lparr>DiskStats.Name = DiskStats.Name tmp, IdleTime = DeviceConf.Idle dc,
                DiskStats.CommandType = DeviceConf.CommandType dc,
                Reads = Reads tmp, Writes = Writes tmp, SpinDownAt = zeroTime,
                SpinUpAt = clock e (Suc (ticks w)), LastIoAt = clock e (ticks w),
                SpunDown = False\<rparr>],
             ticks := Suc (Suc (ticks w))\<rparr>)"
    by (simp add: updateState_def Let_def)
  with dc(1) show ?thesis by blast
qed

lemma previousDiskStatsIndex_nat:
  "\<not> previousDiskStatsIndex w n < 0 \<Longrightarrow>
   previousDiskStatsIndex w n = int (nat (previousDiskStatsIndex w n))"
  by simp

lemma updateState_known_cached:
  assumes known: "previousDiskStatsIndex w (DiskStats.Name tmp) = int dsi"
    and out: "updateState e tmp config w = Inl w' \<or> updateState e tmp config w = Inr w'"
  shows "map cached (previousSnapshots w') = map cached (previousSnapshots w)"
proof (cases "updateState_skew e config dsi w")
  case (Inl x)
  with out have "w' = x" by (simp add: updateState_known [OF known])
  with skew_result [OF Inl, of x] show ?thesis by auto
next
  case (Inr w1)
  from skew_result [OF Inr, of w1]
  have c1: "map cached (previousSnapshots w1) = map cached (previousSnapshots w)" by auto
  show ?thesis
  proof (cases "updateState_activity e tmp config dsi w1")
    case (Inl x)
    with out Inr have "w' = x" by (simp add: updateState_known [OF known])
    with activity_cached [OF disjI1 [OF Inl]] c1 show ?thesis by simp
  next
    case act: (Inr v)
    with out Inr have "w' = updateState_debug config dsi v"
      by (simp add: updateState_known [OF known])
    with activity_cached [OF disjI2 [OF act]] c1 show ?thesis by simp
  qed
qed

lemma updateState_cached:
  assumes "updateState e tmp config w = Inl w' \<or> updateState e tmp config w = Inr w'"
  shows "take (length (previousSnapshots w)) (map cached (previousSnapshots w')) =
      map cached (previousSnapshots w)"
proof (cases "previousDiskStatsIndex w (DiskStats.Name tmp) < 0")
  case True
  from updateState_unknown [OF True, of config e] obtain r where
    "updateState e tmp config w = Inr r" "\<exists>d. previousSnapshots r = previousSnapshots w @ [d]"
    by force
  with assms show ?thesis by auto
next
  case False
  from updateState_known_cached [OF previousDiskStatsIndex_nat [OF False] assms]
  have "map cached (previousSnapshots w') = map cached (previousSnapshots w)" .
  then show ?thesis by simp
qed

lemma take_cached_trans:
  assumes "take (length xs) (map cached ys) = map cached xs"
    and "take (length ys) (map cached zs) = map cached ys"
  shows "take (length xs) (map cached zs) = map cached xs"
proof -
  have l: "length xs \<le> length ys"
    using arg_cong [OF assms(1), of length] by simp
  have "take (length xs) (map cached zs) = take (length xs) (take (length ys) (map cached zs))"
    using l by (simp add: min.absorb1)
  also have "\<dots> = take (length xs) (map cached ys)"
    by (simp only: assms(2))
  also have "\<dots> = map cached xs"
    by (rule assms(1))
  finally show ?thesis .
qed

lemma updateStates_cached:
  "updateStates e snapshot config w = Inl w' \<or> updateStates e snapshot config w = Inr w' \<Longrightarrow>
   take (length (previousSnapshots w)) (map cached (previousSnapshots w')) =
     map cached (previousSnapshots w)"
proof (induction snapshot arbitrary: w)
  case Nil
  then show ?case by simp
next
  case (Cons stats rest)
  show ?case
  proof (cases "updateState e stats config w")
    case (Inl x)
    with Cons.prems have "w' = x" by simp
    with updateState_cached [OF disjI1 [OF Inl]] show ?thesis by simp
  next
    case (Inr w1)
    with Cons.prems have "updateStates e rest config w1 = Inl w' \<or>
        updateStates e rest config w1 = Inr w'" by simp
    from updateState_cached [OF disjI2 [OF Inr]] Cons.IH [OF this]
    show ?thesis by (rule take_cached_trans)
  qed
qed

section \<open>The resolver loop\<close>


lemma resolveDevices_Inr:
  "resolveDevices e defaults devices w = Inr (devices', w') \<Longrightarrow>
   devices' = map (\<lambda>d. if DeviceConf.Name d = [] then
                           (case RealPath e (GivenName d) of
                              Some realPath \<Rightarrow> d\<lparr>DeviceConf.Name := realPath\<rparr>
                            | None \<Rightarrow> d)
                         else d) devices \<and>
   previousSnapshots w' = previousSnapshots w \<and> now w' = now w \<and> lastNow w' = lastNow w \<and>
   ticks w' = ticks w \<and>
   (\<exists>evs. trace w' = trace w @ evs \<and>
      filter isRealPath evs =
        map (\<lambda>d. CallRealPath (GivenName d)) (filter (\<lambda>d. DeviceConf.Name d = []) devices) \<and>
      filter isCannotResolve evs =
        (if Debug defaults
         then map (\<lambda>d. PrintCannotResolve (GivenName d))
                (filter (\<lambda>d. DeviceConf.Name d = [] \<and> RealPath e (GivenName d) = None) devices)
         else []))"
proof (induction devices arbitrary: w devices')
  case Nil
  then show ?case by simp
next
  case (Cons device rest)
  show ?case
  proof (cases "DeviceConf.Name device = []")
    case False
    with Cons.prems obtain rest' where r: "resolveDevices e defaults rest w = Inr (rest', w')"
      "devices' = device # rest'"
      by (auto split: sum.splits)
    from Cons.IH [OF r(1)] r(2) False show ?thesis by (cases "Debug defaults") simp_all
  next
    case True
    show ?thesis
    proof (cases "RealPath e (GivenName device)")
      case None
      let ?w1 = "if Debug defaults
                 then emit (PrintCannotResolve (GivenName device))
                        (emit (CallRealPath (GivenName device)) w)
                 else emit (CallRealPath (GivenName device)) w"
      from Cons.prems True None obtain rest' where r:
        "resolveDevices e defaults rest ?w1 = Inr (rest', w')" "devices' = device # rest'"
        by (auto split: sum.splits)
      from Cons.IH [OF r(1)] obtain evs where evs:
        "rest' = map (\<lambda>d. if DeviceConf.Name d = [] then
                           (case RealPath e (GivenName d) of
                              Some realPath \<Rightarrow> d\<lparr>DeviceConf.Name := realPath\<rparr>
                            | None \<Rightarrow> d)
                         else d) rest"
        "previousSnapshots w' = previousSnapshots ?w1" "now w' = now ?w1"
        "lastNow w' = lastNow ?w1" "ticks w' = ticks ?w1"
        "trace w' = trace ?w1 @ evs"
        "filter isRealPath evs =
           map (\<lambda>d. CallRealPath (GivenName d)) (filter (\<lambda>d. DeviceConf.Name d = []) rest)"
        "filter isCannotResolve evs =
          (if Debug defaults
           then map (\<lambda>d. PrintCannotResolve (GivenName d))
                  (filter (\<lambda>d. DeviceConf.Name d = [] \<and> RealPath e (GivenName d) = None) rest)
           else [])"
        by blast
      show ?thesis
      proof (cases "Debug defaults")
        case dbg: True
        with evs r(2) True None show ?thesis
          by (intro conjI exI [of _ "CallRealPath (GivenName device) #
                PrintCannotResolve (GivenName device) # evs"]) simp_all
      next
        case dbg: False
        with evs r(2) True None show ?thesis
          by (intro conjI exI [of _ "CallRealPath (GivenName device) # evs"]) simp_all
      qed
    next
      case (Some realPath)
      let ?l = "logToFile e (LogFile defaults) (SymlinkResolved (GivenName device) realPath)
                  (emit (CallRealPath (GivenName device)) w)"
      from Cons.prems True Some obtain w1 rest' where r:
        "?l = Inr w1" "resolveDevices e defaults rest w1 = Inr (rest', w')"
        "devices' = device\<lparr>DeviceConf.Name := realPath\<rparr> # rest'"
        by (auto split: sum.splits)
      from r(1) have w1: "previousSnapshots w1 = previousSnapshots w" "now w1 = now w"
        "lastNow w1 = lastNow w" "ticks w1 = ticks w"
        "\<exists>l. trace w1 = trace w @ CallRealPath (GivenName device) # l \<and>
           filter isRealPath l = [] \<and> filter isCannotResolve l = []"
        by (auto simp: logToFile_def split: if_splits)
      then obtain l where l: "trace w1 = trace w @ CallRealPath (GivenName device) # l"
        "filter isRealPath l = []" "filter isCannotResolve l = []" by blast
      from Cons.IH [OF r(2)] obtain evs where evs:
        "rest' = map (\<lambda>d. if DeviceConf.Name d = [] then
                           (case RealPath e (GivenName d) of
                              Some realPath \<Rightarrow> d\<lparr>DeviceConf.Name := realPath\<rparr>
                            | None \<Rightarrow> d)
                         else d) rest"
        "previousSnapshots w' = previousSnapshots w1" "now w' = now w1"
        "lastNow w' = lastNow w1" "ticks w' = ticks w1"
        "trace w' = trace w1 @ evs"
        "filter isRealPath evs =
           map (\<lambda>d. CallRealPath (GivenName d)) (filter (\<lambda>d. DeviceConf.Name d = []) rest)"
        "filter isCannotResolve evs =
          (if Debug defaults
           then map (\<lambda>d. PrintCannotResolve (GivenName d))
                  (filter (\<lambda>d. DeviceConf.Name d = [] \<and> RealPath e (GivenName d) = None) rest)
           else [])"
        by blast
      from evs r(3) True Some w1(1-4) l show ?thesis
        by (intro conjI exI [of _ "CallRealPath (GivenName device) # l @ evs"]) simp_all
    qed
  qed
qed

lemma resolveDevices_Inl:
  "resolveDevices e defaults devices w = Inl w' \<Longrightarrow>
   previousSnapshots w' = previousSnapshots w \<and> LogFile defaults \<noteq> [] \<and>
   (\<exists>d p. d \<in> set devices \<and> DeviceConf.Name d = [] \<and> RealPath e (GivenName d) = Some p \<and>
      \<not> appendLine e (LogFile defaults) (SymlinkResolved (GivenName d) p))"
proof (induction devices arbitrary: w)
  case Nil
  then show ?case by simp
next
  case (Cons device rest)
  show ?case
  proof (cases "DeviceConf.Name device = []")
    case False
    with Cons.prems have "resolveDevices e defaults rest w = Inl w'"
      by (auto split: sum.splits)
    from Cons.IH [OF this] show ?thesis by auto
  next
    case True
    show ?thesis
    proof (cases "RealPath e (GivenName device)")
      case None
      let ?w1 = "if Debug defaults
                 then emit (PrintCannotResolve (GivenName device))
                        (emit (CallRealPath (GivenName device)) w)
                 else emit (CallRealPath (GivenName device)) w"
      from Cons.prems True None have "resolveDevices e defaults rest ?w1 = Inl w'"
        by (auto split: sum.splits)
      from Cons.IH [OF this] show ?thesis by auto
    next
      case (Some realPath)
      let ?l = "logToFile e (LogFile defaults) (SymlinkResolved (GivenName device) realPath)
                  (emit (CallRealPath (GivenName device)) w)"
      show ?thesis
      proof (cases ?l)
        case (Inl x)
        with Cons.prems True Some have "w' = x" by simp
        with Inl True Some show ?thesis
          by (auto simp: logToFile_def split: if_splits)
      next
        case (Inr w1)
        with Cons.prems True Some have "resolveDevices e defaults rest w1 = Inl w'"
          by (auto split: sum.splits)
        from Cons.IH [OF this] logToFile_frame(1) [OF disjI2 [OF Inr]] show ?thesis by auto
      qed
    qed
  qed
qed

lemma resolveDevices_returns:
  assumes "LogFile defaults = [] \<or>
      (\<forall>g p. appendLine e (LogFile defaults) (SymlinkResolved g p))"
  shows "\<exists>devices' w'. resolveDevices e defaults devices w = Inr (devices', w')"
proof (cases "resolveDevices e defaults devices w")
  case (Inl x)
  from resolveDevices_Inl [OF Inl] assms show ?thesis by blast
next
  case (Inr r)
  then show ?thesis by (cases r) simp
qed

lemma resolveDevices_all_fail:
  assumes "\<forall>d\<in>set devices. DeviceConf.Name d = [] \<longrightarrow> RealPath e (GivenName d) = None"
  shows "\<exists>w'. resolveDevices e defaults devices w = Inr (devices, w')"
proof (cases "resolveDevices e defaults devices w")
  case (Inl x)
  from resolveDevices_Inl [OF Inl] assms show ?thesis by force
next
  case (Inr r)
  obtain devices' w' where r: "r = (devices', w')" by (cases r)
  from resolveDevices_Inr [of e defaults devices w devices' w'] Inr r
  have "devices' = map (\<lambda>d. if DeviceConf.Name d = [] then
                           (case RealPath e (GivenName d) of
                              Some realPath \<Rightarrow> d\<lparr>DeviceConf.Name := realPath\<rparr>
                            | None \<Rightarrow> d)
                         else d) devices" by simp
  also have "\<dots> = devices"
    using assms by (intro map_idI) auto
  finally show ?thesis using Inr r by simp
qed

lemma resolveSymlinks_frame:
  assumes "resolveSymlinks e config w = Inl w' \<or> resolveSymlinks e config w = Inr (config', w')"
  shows "previousSnapshots w' = previousSnapshots w"
proof (cases "SymlinkPolicy (Defaults config) = 0")
  case True
  with assms show ?thesis by (simp add: resolveSymlinks_def)
next
  case False
  show ?thesis
  proof (cases "resolveDevices e (Defaults config) (Devices config) w")
    case (Inl x)
    with assms False have "w' = x" by (simp add: resolveSymlinks_def)
    with resolveDevices_Inl [OF Inl] show ?thesis by simp
  next
    case (Inr r)
    obtain devices' v where r: "r = (devices', v)" by (cases r)
    with assms False Inr have "w' = v" by (simp add: resolveSymlinks_def)
    with resolveDevices_Inr [of e "Defaults config" "Devices config" w devices' v] Inr r
    show ?thesis by simp
  qed
qed

lemma ObserveDiskActivity_cached:
  assumes "ObserveDiskActivity e snapshot config w = Inl w' \<or>
      ObserveDiskActivity e snapshot config w = Inr (config', w')"
  shows "take (length (previousSnapshots w)) (map cached (previousSnapshots w')) =
      map cached (previousSnapshots w)"
proof -
  let ?w1 = "w\<lparr>ticks := Suc (ticks w), now := clock e (ticks w)\<rparr>"
  have o: "ObserveDiskActivity e snapshot config w =
     (case resolveSymlinks e config ?w1 of
           Inl x \<Rightarrow> Inl x
         | Inr (config', w2) \<Rightarrow>
             (case updateStates e snapshot config' w2 of
                Inl x \<Rightarrow> Inl x
              | Inr w3 \<Rightarrow> Inr (config', w3\<lparr>lastNow := now w3\<rparr>)))"
    by (simp add: ObserveDiskActivity_def timeNow_def)
  show ?thesis
  proof (cases "resolveSymlinks e config ?w1")
    case (Inl x)
    with assms o have "w' = x" by simp
    with resolveSymlinks_frame [OF disjI1 [OF Inl]] show ?thesis by simp
  next
    case (Inr r)
    obtain c2 w2 where r: "r = (c2, w2)" by (cases r)
    from resolveSymlinks_frame [of e config ?w1 w2 c2] Inr r
    have f: "previousSnapshots w2 = previousSnapshots w" by simp
    show ?thesis
    proof (cases "updateStates e snapshot c2 w2")
      case (Inl x)
      with assms o Inr r have "w' = x" by simp
      with updateStates_cached [OF disjI1 [OF Inl]] f show ?thesis by simp
    next
      case us: (Inr w3)
      with assms o Inr r have "w' = w3\<lparr>lastNow := now w3\<rparr>" by simp
      with updateStates_cached [OF disjI2 [OF us]] f show ?thesis by simp
    qed
  qed
qed

lemma cached_prefix:
  assumes "take (length xs) (map cached ys) = map cached xs"
  shows "length xs \<le> length ys"
    and "take (length xs) (map DiskStats.Name ys) = map DiskStats.Name xs"
    and "i < length xs \<Longrightarrow> cached (ys ! i) = cached (xs ! i)"
proof -
  show l: "length xs \<le> length ys"
    using arg_cong [OF assms, of length] by simp
  have "map cached (take (length xs) ys) = map cached xs"
    using assms by (simp add: take_map)
  from names_of_cached [OF this]
  show "take (length xs) (map DiskStats.Name ys) = map DiskStats.Name xs"
    by (simp add: take_map)
  assume i: "i < length xs"
  have "take (length xs) (map cached ys) ! i = map cached xs ! i"
    by (simp only: assms)
  with i l show "cached (ys ! i) = cached (xs ! i)" by simp
qed

section \<open>The idle threshold\<close>



section \<open>No repeated spin-down\<close>

text \<open>
  C2. For a known device: (1) if it is spun down when its counters are compared and the
  counters are unchanged, \<^verbatim>\<open>updateState\<close> returns with every state, the clock fields and
  the tick count as they were, and neither \<^verbatim>\<open>spindownDisk\<close> nor a stop capability is
  called; (2) a call that finds the stored flag set and still issues a spin-down is a call
  in which skew detection fired; (3) a call that finds the flag set and leaves it cleared
  is a call in which skew detection fired or a counter changed.
\<close>

theorem C2_no_repeated_spindown:
  assumes "previousDiskStatsIndex w (DiskStats.Name tmp) = int dsi"
  shows "(\<forall>w1. updateState_skew e config dsi w = Inr w1 \<and>
            SpunDown (previousSnapshots w1 ! dsi) \<and>
            Reads (previousSnapshots w1 ! dsi) = Reads tmp \<and>
            Writes (previousSnapshots w1 ! dsi) = Writes tmp \<longrightarrow>
            (\<exists>w'. updateState e tmp config w = Inr w' \<and>
               previousSnapshots w' = previousSnapshots w \<and>
               now w' = now w \<and> lastNow w' = lastNow w \<and> ticks w' = ticks w \<and>
               filter isStop (newEvents w w') = [] \<and>
               filter isSpindown (newEvents w w') = [])) \<and>
     (\<forall>w'. SpunDown (previousSnapshots w ! dsi) \<and>
            (updateState e tmp config w = Inl w' \<or> updateState e tmp config w = Inr w') \<and>
            (filter isStop (newEvents w w') \<noteq> [] \<or> filter isSpindown (newEvents w w') \<noteq> []) \<longrightarrow>
            SkewTime config < Sub (now w) (lastNow w)) \<and>
     (\<forall>w'. SpunDown (previousSnapshots w ! dsi) \<and>
            updateState e tmp config w = Inr w' \<and>
            \<not> SpunDown (previousSnapshots w' ! dsi) \<longrightarrow>
            SkewTime config < Sub (now w) (lastNow w) \<or>
            Reads (previousSnapshots w ! dsi) \<noteq> Reads tmp \<or>
            Writes (previousSnapshots w ! dsi) \<noteq> Writes tmp)"
proof -
  have len: "dsi < length (previousSnapshots w)"
    using previousDiskStatsIndex_cases [OF assms] by simp
  have one: "\<exists>w'. updateState e tmp config w = Inr w' \<and>
               previousSnapshots w' = previousSnapshots w \<and>
               now w' = now w \<and> lastNow w' = lastNow w \<and> ticks w' = ticks w \<and>
               filter isStop (newEvents w w') = [] \<and>
               filter isSpindown (newEvents w w') = []"
    if h: "updateState_skew e config dsi w = Inr w1" "SpunDown (previousSnapshots w1 ! dsi)"
      "Reads (previousSnapshots w1 ! dsi) = Reads tmp"
      "Writes (previousSnapshots w1 ! dsi) = Writes tmp"
    for w1
  proof -
    have eq: "w1 = w" by (rule updateState_skew_clears(1) [OF h(1) len h(2)])
    from updateState_idle [OF assms h(1) refl h(3,4) disjI1 [OF h(2)]]
    obtain w' evs where q: "updateState e tmp config w = Inr w'"
      "previousSnapshots w' = previousSnapshots w1" "trace w' = trace w @ evs"
      "now w' = now w" "lastNow w' = lastNow w" "ticks w' = ticks w"
      "filter isSpindown evs = []" "filter isStop evs = []"
      by blast
    have "newEvents w w' = evs" by (rule newEvents_append [OF q(3)])
    with q eq show ?thesis by simp
  qed
  have two: "SkewTime config < Sub (now w) (lastNow w)"
    if h: "SpunDown (previousSnapshots w ! dsi)"
      "updateState e tmp config w = Inl w' \<or> updateState e tmp config w = Inr w'"
      "filter isStop (newEvents w w') \<noteq> [] \<or> filter isSpindown (newEvents w w') \<noteq> []"
    for w'
  proof (rule ccontr)
    assume ns: "\<not> SkewTime config < Sub (now w) (lastNow w)"
    from spindown_only_when_fires [OF assms h(2,3)] obtain w1 where
      w1: "updateState_skew e config dsi w = Inr w1" "\<not> SpunDown (previousSnapshots w1 ! dsi)"
      by blast
    from w1(1) updateState_skew_none [OF ns, of e dsi] have "w1 = w" by simp
    with w1(2) h(1) show False by simp
  qed
  have three: "SkewTime config < Sub (now w) (lastNow w) \<or>
            Reads (previousSnapshots w ! dsi) \<noteq> Reads tmp \<or>
            Writes (previousSnapshots w ! dsi) \<noteq> Writes tmp"
    if h: "SpunDown (previousSnapshots w ! dsi)" "updateState e tmp config w = Inr w'"
      "\<not> SpunDown (previousSnapshots w' ! dsi)"
    for w'
  proof (rule ccontr)
    assume "\<not> (SkewTime config < Sub (now w) (lastNow w) \<or>
            Reads (previousSnapshots w ! dsi) \<noteq> Reads tmp \<or>
            Writes (previousSnapshots w ! dsi) \<noteq> Writes tmp)"
    then have ns: "\<not> SkewTime config < Sub (now w) (lastNow w)"
      and same: "Reads (previousSnapshots w ! dsi) = Reads tmp"
        "Writes (previousSnapshots w ! dsi) = Writes tmp"
      by simp_all
    from one [OF updateState_skew_none [OF ns] h(1) same] h(2) h(1) h(3)
    show False by auto
  qed
  from one two three show ?thesis by blast
qed

theorem C2_witness:
  "previousDiskStatsIndex stoppedWorld (DiskStats.Name (disk ''sda'' 0 [] 10 5)) = int 0 \<and>
   updateState_skew exampleEnv exampleConfig 0 stoppedWorld = Inr stoppedWorld \<and>
   SpunDown (previousSnapshots stoppedWorld ! 0) \<and>
   Reads (previousSnapshots stoppedWorld ! 0) = Reads (disk ''sda'' 0 [] 10 5) \<and>
   Writes (previousSnapshots stoppedWorld ! 0) = Writes (disk ''sda'' 0 [] 10 5) \<and>
   (\<exists>w'. updateState exampleEnv (disk ''sda'' 0 [] 10 5) exampleConfig stoppedWorld = Inr w' \<and>
      previousSnapshots w' = previousSnapshots stoppedWorld \<and>
      filter isStop (newEvents stoppedWorld w') = [] \<and>
      filter isSpindown (newEvents stoppedWorld w') = [])"
proof -
  have h1: "previousDiskStatsIndex stoppedWorld (DiskStats.Name (disk ''sda'' 0 [] 10 5)) = int 0"
    by (simp add: example_defs previousDiskStatsIndex_def)
  have h2: "updateState_skew exampleEnv exampleConfig 0 stoppedWorld = Inr stoppedWorld"
    by (simp add: example_defs updateState_skew_def Sub_defs)
  have h3: "SpunDown (previousSnapshots stoppedWorld ! 0)"
    "Reads (previousSnapshots stoppedWorld ! 0) = Reads (disk ''sda'' 0 [] 10 5)"
    "Writes (previousSnapshots stoppedWorld ! 0) = Writes (disk ''sda'' 0 [] 10 5)"
    by (simp_all add: example_defs)
  from C2_no_repeated_spindown [OF h1, of exampleEnv exampleConfig] h2 h3
  have "\<exists>w'. updateState exampleEnv (disk ''sda'' 0 [] 10 5) exampleConfig stoppedWorld = Inr w' \<and>
      previousSnapshots w' = previousSnapshots stoppedWorld \<and>
      now w' = now stoppedWorld \<and> lastNow w' = lastNow stoppedWorld \<and>
      ticks w' = ticks stoppedWorld \<and>
      filter isStop (newEvents stoppedWorld w') = [] \<and>
      filter isSpindown (newEvents stoppedWorld w') = []"
    by blast
  with h1 h2 h3 show ?thesis by auto
qed

section \<open>A failing stop command\<close>



section \<open>An unrecognized command type\<close>

text \<open>
  C10. With a command type that is neither \<^verbatim>\<open>scsi\<close> nor \<^verbatim>\<open>ata\<close>, \<^verbatim>\<open>spindownDisk\<close> prints its
  console line and returns no error, calling no stop capability. So when the spin-down
  decision fires for a device whose cached command type is such a string, the device
  becomes spun down, with \<open>SpinDownAt = now\<close>, no stop capability is called and no error
  is printed.
\<close>

theorem C10_unrecognized_command_type:
  assumes "command \<noteq> SCSI" and "command \<noteq> ATA"
  shows "spindownDisk e device command w = (None, emit (PrintSpindown device) w) \<and>
     (\<forall>v tmp config dsi v1 ds.
        previousDiskStatsIndex v (DiskStats.Name tmp) = int dsi \<and>
        updateState_skew e config dsi v = Inr v1 \<and>
        previousSnapshots v1 ! dsi = ds \<and> DiskStats.CommandType ds = command \<and>
        Reads ds = Reads tmp \<and> Writes ds = Writes tmp \<and> \<not> SpunDown ds \<and>
        IdleTime ds \<noteq> 0 \<and> IdleTime ds < Sub (now v) (LastIoAt ds) \<longrightarrow>
        (\<exists>v'. updateState e tmp config v = Inr v' \<and>
           SpunDown (previousSnapshots v' ! dsi) \<and>
           SpinDownAt (previousSnapshots v' ! dsi) = now v \<and>
           filter isSpindown (newEvents v v') = [PrintSpindown (''/dev/'' @ DiskStats.Name ds)] \<and>
           filter isStop (newEvents v v') = [] \<and>
           filter isError (newEvents v v') = []))"
proof -
  have second: "\<exists>v'. updateState e tmp config v = Inr v' \<and>
           SpunDown (previousSnapshots v' ! dsi) \<and>
           SpinDownAt (previousSnapshots v' ! dsi) = now v \<and>
           filter isSpindown (newEvents v v') = [PrintSpindown (''/dev/'' @ DiskStats.Name ds)] \<and>
           filter isStop (newEvents v v') = [] \<and>
           filter isError (newEvents v v') = []"
    if h: "previousDiskStatsIndex v (DiskStats.Name tmp) = int dsi"
      "updateState_skew e config dsi v = Inr v1"
      "previousSnapshots v1 ! dsi = ds" "Reads ds = Reads tmp" "Writes ds = Writes tmp"
      "\<not> SpunDown ds" "IdleTime ds \<noteq> 0" "IdleTime ds < Sub (now v) (LastIoAt ds)"
      and cmd: "DiskStats.CommandType ds = command"
    for v tmp config dsi v1 ds
  proof -
    from updateState_fires [OF h] cmd assms
    obtain v' sk dbg where r:
      "updateState e tmp config v = Inr v'"
      "previousSnapshots v' =
         (previousSnapshots v1)[dsi := ds\<lparr>SpinDownAt := now v, SpunDown := True\<rparr>]"
      "trace v' = trace v @ sk @ PrintSpindown (''/dev/'' @ DiskStats.Name ds) # [] @ [] @ dbg"
      "filter isSpindown sk = []" "filter isStop sk = []" "filter isError sk = []"
      "filter isSpindown dbg = []" "filter isStop dbg = []" "filter isError dbg = []"
      by (metis option.simps(4))
    have "newEvents v v' = sk @ PrintSpindown (''/dev/'' @ DiskStats.Name ds) # [] @ [] @ dbg"
      by (rule newEvents_append [OF r(3)])
    with r known_in_range(1) [OF h(1,2)] show ?thesis by simp
  qed
  from spindownDisk_unrecognized [OF assms] second show ?thesis by blast
qed

theorem C10_witness:
  "''nvme'' \<noteq> SCSI \<and> ''nvme'' \<noteq> ATA \<and>
   spindownDisk exampleEnv ''/dev/nvme0n1'' ''nvme'' nvmeWorld =
     (None, emit (PrintSpindown ''/dev/nvme0n1'') nvmeWorld) \<and>
   previousDiskStatsIndex nvmeWorld (DiskStats.Name (disk ''nvme0n1'' 0 [] 1 1)) = int 0 \<and>
   updateState_skew exampleEnv exampleConfig 0 nvmeWorld = Inr nvmeWorld \<and>
   DiskStats.CommandType (previousSnapshots nvmeWorld ! 0) = ''nvme'' \<and>
   (\<exists>v'. updateState exampleEnv (disk ''nvme0n1'' 0 [] 1 1) exampleConfig nvmeWorld = Inr v' \<and>
      SpunDown (previousSnapshots v' ! 0) \<and>
      filter isSpindown (newEvents nvmeWorld v') = [PrintSpindown ''/dev/nvme0n1''] \<and>
      filter isStop (newEvents nvmeWorld v') = [] \<and>
      filter isError (newEvents nvmeWorld v') = [])"
proof -
  have a: "''nvme'' \<noteq> SCSI" "''nvme'' \<noteq> ATA"
    by (simp_all add: SCSI_def ATA_def)
  have h1: "previousDiskStatsIndex nvmeWorld (DiskStats.Name (disk ''nvme0n1'' 0 [] 1 1)) = int 0"
    by (simp add: example_defs nvmeWorld_def previousDiskStatsIndex_def)
  have h2: "updateState_skew exampleEnv exampleConfig 0 nvmeWorld = Inr nvmeWorld"
    by (simp add: example_defs nvmeWorld_def updateState_skew_def Sub_defs)
  have h3: "DiskStats.CommandType (previousSnapshots nvmeWorld ! 0) = ''nvme''"
    "Reads (previousSnapshots nvmeWorld ! 0) = Reads (disk ''nvme0n1'' 0 [] 1 1)"
    "Writes (previousSnapshots nvmeWorld ! 0) = Writes (disk ''nvme0n1'' 0 [] 1 1)"
    "\<not> SpunDown (previousSnapshots nvmeWorld ! 0)"
    "IdleTime (previousSnapshots nvmeWorld ! 0) \<noteq> 0"
    "IdleTime (previousSnapshots nvmeWorld ! 0)
        < Sub (now nvmeWorld) (LastIoAt (previousSnapshots nvmeWorld ! 0))"
    "DiskStats.Name (previousSnapshots nvmeWorld ! 0) = ''nvme0n1''"
    by (simp_all add: example_defs nvmeWorld_def Sub_defs)
  note t = C10_unrecognized_command_type [OF a, of exampleEnv "''/dev/nvme0n1''" nvmeWorld]
  from t have first: "spindownDisk exampleEnv ''/dev/nvme0n1'' ''nvme'' nvmeWorld =
     (None, emit (PrintSpindown ''/dev/nvme0n1'') nvmeWorld)" by blast
  from t h1 h2 h3 have "\<exists>v'. updateState exampleEnv (disk ''nvme0n1'' 0 [] 1 1) exampleConfig nvmeWorld = Inr v' \<and>
      SpunDown (previousSnapshots v' ! 0) \<and>
      SpinDownAt (previousSnapshots v' ! 0) = now nvmeWorld \<and>
      filter isSpindown (newEvents nvmeWorld v') =
        [PrintSpindown (''/dev/'' @ DiskStats.Name (previousSnapshots nvmeWorld ! 0))] \<and>
      filter isStop (newEvents nvmeWorld v') = [] \<and>
      filter isError (newEvents nvmeWorld v') = []"
    by blast
  with a first h1 h2 h3 show ?thesis by auto
qed

section \<open>Device configuration lookup\<close>

text \<open>
  C7. \<^verbatim>\<open>deviceConfig\<close> is a function of the name and the configuration alone: it returns
  the first entry of \<^verbatim>\<open>config.Devices\<close> whose name is the given one, and an entry holding
  the default idle time and command type when there is none. On the first sighting of a
  device \<^verbatim>\<open>updateState\<close> stores that entry's idle time and command type in the new state.
  No later call of \<^verbatim>\<open>updateState\<close> and no later cycle, with any configuration, snapshot
  or environment, changes the idle time or the command type of a state that exists,
  whether the call returns or the process ends in it.
\<close>

theorem C7_lookup_cached_at_first_sighting:
  "deviceConfig diskName config =
     Some (case find (\<lambda>d. DeviceConf.Name d = diskName) (Devices config) of
             Some d \<Rightarrow> d
           | None \<Rightarrow>
               \<lparr>DeviceConf.Name = diskName, GivenName = [],
                DeviceConf.Idle = DefaultConf.Idle (Defaults config),
                DeviceConf.CommandType = DefaultConf.CommandType (Defaults config)\<rparr>) \<and>
   (previousDiskStatsIndex w (DiskStats.Name tmp) < 0 \<longrightarrow>
      (\<exists>dc w'. deviceConfig (DiskStats.Name tmp) config = Some dc \<and>
         updateState e tmp config w = Inr w' \<and>
         length (previousSnapshots w') = Suc (length (previousSnapshots w)) \<and>
         DiskStats.Name (last (previousSnapshots w')) = DiskStats.Name tmp \<and>
         IdleTime (last (previousSnapshots w')) = DeviceConf.Idle dc \<and>
         DiskStats.CommandType (last (previousSnapshots w')) = DeviceConf.CommandType dc)) \<and>
   (\<forall>w' i. (updateState e tmp config w = Inl w' \<or> updateState e tmp config w = Inr w') \<and>
        i < length (previousSnapshots w) \<longrightarrow>
      IdleTime (previousSnapshots w' ! i) = IdleTime (previousSnapshots w ! i) \<and>
      DiskStats.CommandType (previousSnapshots w' ! i) =
        DiskStats.CommandType (previousSnapshots w ! i)) \<and>
   (\<forall>w' config' i. (ObserveDiskActivity e snapshot config w = Inl w' \<or>
         ObserveDiskActivity e snapshot config w = Inr (config', w')) \<and>
        i < length (previousSnapshots w) \<longrightarrow>
      IdleTime (previousSnapshots w' ! i) = IdleTime (previousSnapshots w ! i) \<and>
      DiskStats.CommandType (previousSnapshots w' ! i) =
        DiskStats.CommandType (previousSnapshots w ! i))"
proof -
  have lookup: "deviceConfig diskName config =
     Some (case find (\<lambda>d. DeviceConf.Name d = diskName) (Devices config) of
             Some d \<Rightarrow> d
           | None \<Rightarrow>
               \<lparr>DeviceConf.Name = diskName, GivenName = [],
                DeviceConf.Idle = DefaultConf.Idle (Defaults config),
                DeviceConf.CommandType = DefaultConf.CommandType (Defaults config)\<rparr>)"
    unfolding deviceConfig_def by (rule deviceConfigFrom_find)
  have create: "\<exists>dc w'. deviceConfig (DiskStats.Name tmp) config = Some dc \<and>
         updateState e tmp config w = Inr w' \<and>
         length (previousSnapshots w') = Suc (length (previousSnapshots w)) \<and>
         DiskStats.Name (last (previousSnapshots w')) = DiskStats.Name tmp \<and>
         IdleTime (last (previousSnapshots w')) = DeviceConf.Idle dc \<and>
         DiskStats.CommandType (last (previousSnapshots w')) = DeviceConf.CommandType dc"
    if u: "previousDiskStatsIndex w (DiskStats.Name tmp) < 0"
  proof -
    from updateState_unknown [OF u, of config e] obtain dc where dc:
      "deviceConfig (DiskStats.Name tmp) config = Some dc"
      "updateState e tmp config w =
       Inr (w\<lparr>previousSnapshots := previousSnapshots w @
              [\<lparr>DiskStats.Name = DiskStats.Name tmp, IdleTime = DeviceConf.Idle dc,
                DiskStats.CommandType = DeviceConf.CommandType dc,
                Reads = Reads tmp, Writes = Writes tmp, SpinDownAt = zeroTime,
                SpinUpAt = clock e (Suc (ticks w)), LastIoAt = clock e (ticks w),
                SpunDown = False\<rparr>],
             ticks := Suc (Suc (ticks w))\<rparr>)"
      by blast
    show ?thesis
      by (rule exI [of _ dc], simp add: dc)
  qed
  have keep: "IdleTime (ys ! i) = IdleTime (xs ! i) \<and>
      DiskStats.CommandType (ys ! i) = DiskStats.CommandType (xs ! i)"
    if "take (length xs) (map cached ys) = map cached xs" "i < length xs" for xs ys i
    using cached_prefix(3) [OF that] by (simp add: cached_def)
  have step: "IdleTime (previousSnapshots w' ! i) = IdleTime (previousSnapshots w ! i) \<and>
      DiskStats.CommandType (previousSnapshots w' ! i) =
        DiskStats.CommandType (previousSnapshots w ! i)"
    if "updateState e tmp config w = Inl w' \<or> updateState e tmp config w = Inr w'"
      "i < length (previousSnapshots w)" for w' i
    by (rule keep [OF updateState_cached [OF that(1)] that(2)])
  have cycle: "IdleTime (previousSnapshots w' ! i) = IdleTime (previousSnapshots w ! i) \<and>
      DiskStats.CommandType (previousSnapshots w' ! i) =
        DiskStats.CommandType (previousSnapshots w ! i)"
    if "ObserveDiskActivity e snapshot config w = Inl w' \<or>
         ObserveDiskActivity e snapshot config w = Inr (config', w')"
      "i < length (previousSnapshots w)" for w' config' i
    by (rule keep [OF ObserveDiskActivity_cached [OF that(1)] that(2)])
  from lookup create step cycle show ?thesis by blast
qed

theorem C7_witness:
  "deviceConfig ''sdb'' exampleConfig =
     Some \<lparr>DeviceConf.Name = ''sdb'', GivenName = ''/dev/disk/by-label/data'',
           DeviceConf.Idle = 5, DeviceConf.CommandType = ''ata''\<rparr> \<and>
   DefaultConf.Idle (Defaults exampleConfig) = 2 \<and>
   previousDiskStatsIndex exampleWorld (DiskStats.Name (disk ''sdb'' 0 [] 7 7)) < 0 \<and>
   (\<exists>w'. updateState exampleEnv (disk ''sdb'' 0 [] 7 7) exampleConfig exampleWorld = Inr w' \<and>
      IdleTime (last (previousSnapshots w')) = 5 \<and>
      DiskStats.CommandType (last (previousSnapshots w')) = ''ata'' \<and>
      IdleTime (previousSnapshots w' ! 0) = 2 \<and>
      DiskStats.CommandType (previousSnapshots w' ! 0) = ''scsi'')"
proof -
  note t = C7_lookup_cached_at_first_sighting [of "''sdb''" exampleConfig exampleWorld
      "disk ''sdb'' 0 [] 7 7" exampleEnv "[]"]
  have n: "DiskStats.Name (disk ''sdb'' 0 [] 7 7) = ''sdb''" by (simp add: disk_def)
  have i: "previousDiskStatsIndex exampleWorld (DiskStats.Name (disk ''sdb'' 0 [] 7 7)) < 0"
    by (simp add: example_defs previousDiskStatsIndex_def)
  have d: "DefaultConf.Idle (Defaults exampleConfig) = 2" by (simp add: exampleConfig_def)
  from t have l: "deviceConfig ''sdb'' exampleConfig =
     Some \<lparr>DeviceConf.Name = ''sdb'', GivenName = ''/dev/disk/by-label/data'',
           DeviceConf.Idle = 5, DeviceConf.CommandType = ''ata''\<rparr>"
    by (simp add: exampleConfig_def)
  from t i obtain dc w' where c:
    "deviceConfig (DiskStats.Name (disk ''sdb'' 0 [] 7 7)) exampleConfig = Some dc"
    "updateState exampleEnv (disk ''sdb'' 0 [] 7 7) exampleConfig exampleWorld = Inr w'"
    "IdleTime (last (previousSnapshots w')) = DeviceConf.Idle dc"
    "DiskStats.CommandType (last (previousSnapshots w')) = DeviceConf.CommandType dc"
    by blast
  from c(1) l n have dc: "DeviceConf.Idle dc = 5" "DeviceConf.CommandType dc = ''ata''"
    by auto
  have z: "0 < length (previousSnapshots exampleWorld)" by (simp add: example_defs)
  from t c(2) z have "IdleTime (previousSnapshots w' ! 0) = IdleTime (previousSnapshots exampleWorld ! 0) \<and>
      DiskStats.CommandType (previousSnapshots w' ! 0) =
        DiskStats.CommandType (previousSnapshots exampleWorld ! 0)"
    by blast
  then have k: "IdleTime (previousSnapshots w' ! 0) = 2"
    "DiskStats.CommandType (previousSnapshots w' ! 0) = ''scsi''"
    by (simp_all add: example_defs)
  from l d i c(2,3,4) dc k show ?thesis by auto
qed

section \<open>States are never removed\<close>

text \<open>
  C8. \<^verbatim>\<open>previousDiskStatsIndex\<close> is negative exactly for a name no state has, and
  otherwise the first index whose state has the name. A call of \<^verbatim>\<open>updateState\<close> leaves
  the list of names as it was when the snapshot entry names a tracked device, and appends
  the entry's name (once) when it does not, whether the call returns or the process ends
  in it. After a cycle the list of states is at least as long, and the names it had
  before are still there, at the same indices.
\<close>

theorem C8_states_only_grow:
  "(previousDiskStatsIndex w n < 0) = (n \<notin> set (map DiskStats.Name (previousSnapshots w))) \<and>
   (\<forall>dsi. previousDiskStatsIndex w n = int dsi \<longrightarrow>
      dsi < length (previousSnapshots w) \<and> DiskStats.Name (previousSnapshots w ! dsi) = n \<and>
      n \<notin> set (map DiskStats.Name (take dsi (previousSnapshots w)))) \<and>
   (\<forall>w'. updateState e tmp config w = Inl w' \<or> updateState e tmp config w = Inr w' \<longrightarrow>
      map DiskStats.Name (previousSnapshots w') =
        map DiskStats.Name (previousSnapshots w) @
          (if DiskStats.Name tmp \<in> set (map DiskStats.Name (previousSnapshots w)) then []
           else [DiskStats.Name tmp])) \<and>
   (\<forall>w' config'. ObserveDiskActivity e snapshot config w = Inl w' \<or>
        ObserveDiskActivity e snapshot config w = Inr (config', w') \<longrightarrow>
      length (previousSnapshots w) \<le> length (previousSnapshots w') \<and>
      take (length (previousSnapshots w)) (map DiskStats.Name (previousSnapshots w')) =
        map DiskStats.Name (previousSnapshots w))"
proof -
  have absent: "(previousDiskStatsIndex w n < 0) = (n \<notin> set (map DiskStats.Name (previousSnapshots w)))"
    for n
    unfolding previousDiskStatsIndex_def by (rule indexFrom_absent)
  have first: "dsi < length (previousSnapshots w) \<and> DiskStats.Name (previousSnapshots w ! dsi) = n \<and>
      n \<notin> set (map DiskStats.Name (take dsi (previousSnapshots w)))"
    if "previousDiskStatsIndex w n = int dsi" for dsi
    by (rule previousDiskStatsIndex_cases [OF that])
  have step: "map DiskStats.Name (previousSnapshots w') =
        map DiskStats.Name (previousSnapshots w) @
          (if DiskStats.Name tmp \<in> set (map DiskStats.Name (previousSnapshots w)) then []
           else [DiskStats.Name tmp])"
    if out: "updateState e tmp config w = Inl w' \<or> updateState e tmp config w = Inr w'" for w'
  proof (cases "previousDiskStatsIndex w (DiskStats.Name tmp) < 0")
    case True
    from updateState_unknown [OF True, of config e] obtain r where
      "updateState e tmp config w = Inr r"
      "\<exists>d. previousSnapshots r = previousSnapshots w @ [d] \<and> DiskStats.Name d = DiskStats.Name tmp"
      by force
    with out have "map DiskStats.Name (previousSnapshots w') =
        map DiskStats.Name (previousSnapshots w) @ [DiskStats.Name tmp]" by auto
    with True absent [of "DiskStats.Name tmp"] show ?thesis by simp
  next
    case False
    from updateState_known_cached [OF previousDiskStatsIndex_nat [OF False] out]
    have "map DiskStats.Name (previousSnapshots w') = map DiskStats.Name (previousSnapshots w)"
      by (rule names_of_cached)
    with False absent [of "DiskStats.Name tmp"] show ?thesis by simp
  qed
  have cycle: "length (previousSnapshots w) \<le> length (previousSnapshots w') \<and>
      take (length (previousSnapshots w)) (map DiskStats.Name (previousSnapshots w')) =
        map DiskStats.Name (previousSnapshots w)"
    if out: "ObserveDiskActivity e snapshot config w = Inl w' \<or>
        ObserveDiskActivity e snapshot config w = Inr (config', w')" for w' config'
    using cached_prefix(1,2) [OF ObserveDiskActivity_cached [OF out]] by simp
  from absent first step cycle show ?thesis by blast
qed

theorem C8_witness:
  "previousDiskStatsIndex exampleWorld ''sdb'' < 0 \<and>
   previousDiskStatsIndex exampleWorld ''sda'' = int 0 \<and>
   (\<exists>w'. updateState exampleEnv (disk ''sdb'' 0 [] 7 7) exampleConfig exampleWorld = Inr w' \<and>
      map DiskStats.Name (previousSnapshots w') = [''sda'', ''sdb'']) \<and>
   (\<exists>w'. updateState exampleEnv (disk ''sda'' 0 [] 11 5) exampleConfig exampleWorld = Inr w' \<and>
      map DiskStats.Name (previousSnapshots w') = [''sda''])"
proof -
  have i1: "previousDiskStatsIndex exampleWorld ''sdb'' < 0"
    and i2: "previousDiskStatsIndex exampleWorld ''sda'' = int 0"
    by (simp_all add: example_defs previousDiskStatsIndex_def)
  have n: "map DiskStats.Name (previousSnapshots exampleWorld) = [''sda'']"
    "DiskStats.Name (disk ''sdb'' 0 [] 7 7) = ''sdb''"
    "DiskStats.Name (disk ''sda'' 0 [] 11 5) = ''sda''"
    by (simp_all add: example_defs)
  have "\<exists>w'. updateState exampleEnv (disk ''sdb'' 0 [] 7 7) exampleConfig exampleWorld = Inr w'"
    using updateState_unknown [of exampleWorld "disk ''sdb'' 0 [] 7 7" exampleConfig exampleEnv]
      i1 n(2) by auto
  then obtain w1 where w1:
    "updateState exampleEnv (disk ''sdb'' 0 [] 7 7) exampleConfig exampleWorld = Inr w1" by blast
  from C8_states_only_grow [of exampleWorld "''sdb''" exampleEnv "disk ''sdb'' 0 [] 7 7"
      exampleConfig "[]"] w1 n
  have a: "map DiskStats.Name (previousSnapshots w1) = [''sda'', ''sdb'']" by simp
  have k: "updateState_skew exampleEnv exampleConfig 0 exampleWorld = Inr exampleWorld"
    by (simp add: example_defs updateState_skew_def Sub_defs)
  have "\<exists>w'. updateState exampleEnv (disk ''sda'' 0 [] 11 5) exampleConfig exampleWorld = Inr w'"
    using activity_changed_running [of exampleWorld 0 _ "disk ''sda'' 0 [] 11 5" exampleEnv exampleConfig]
      updateState_known [of exampleWorld "disk ''sda'' 0 [] 11 5" 0 exampleEnv exampleConfig] i2 k n(3)
    by (simp add: example_defs)
  then obtain w2 where w2:
    "updateState exampleEnv (disk ''sda'' 0 [] 11 5) exampleConfig exampleWorld = Inr w2" by blast
  from C8_states_only_grow [of exampleWorld "''sda''" exampleEnv "disk ''sda'' 0 [] 11 5"
      exampleConfig "[]"] w2 n
  have b: "map DiskStats.Name (previousSnapshots w2) = [''sda'']" by simp
  from i1 i2 w1 a w2 b show ?thesis by auto
qed

section \<open>The identity resolver\<close>

text \<open>
  C9. With the symlink policy disabled, or with no entry whose name is empty,
  \<^verbatim>\<open>resolveSymlinks\<close> returns the configuration and the world as they were (no event, no
  call). With the policy enabled, when it returns: every entry with an empty name whose
  given name resolves has got the resolved name, every other entry is as it was;
  \<^verbatim>\<open>io.RealPath\<close> was called for the entries with an empty name, in order, and for no
  other; and the diagnostic was printed for the entries that did not resolve if the debug
  flag is set, and for none if it is not. If no resolution succeeds it returns, with the
  configuration unchanged; it returns whenever no log file is configured or the log file
  takes the lines (its only \<^verbatim>\<open>log.Fatalf\<close> is \<^verbatim>\<open>logToFile\<close>'s). Run on its own result, in
  any world, with the same answers of \<^verbatim>\<open>io.RealPath\<close>, it leaves the configuration
  unchanged.
\<close>

theorem C9_resolver_idempotent_and_not_fatal:
  "(SymlinkPolicy (Defaults config) = 0 \<or>
    (\<forall>d\<in>set (Devices config). DeviceConf.Name d \<noteq> []) \<longrightarrow>
      resolveSymlinks e config w = Inr (config, w)) \<and>
   (\<forall>config' w'. SymlinkPolicy (Defaults config) \<noteq> 0 \<and>
        resolveSymlinks e config w = Inr (config', w') \<longrightarrow>
      config' = config\<lparr>Devices :=
        map (\<lambda>d. if DeviceConf.Name d = [] then
                    (case RealPath e (GivenName d) of
                       Some realPath \<Rightarrow> d\<lparr>DeviceConf.Name := realPath\<rparr>
                     | None \<Rightarrow> d)
                  else d) (Devices config)\<rparr> \<and>
      filter isRealPath (newEvents w w') =
        map (\<lambda>d. CallRealPath (GivenName d))
          (filter (\<lambda>d. DeviceConf.Name d = []) (Devices config)) \<and>
      filter isCannotResolve (newEvents w w') =
        (if Debug (Defaults config)
         then map (\<lambda>d. PrintCannotResolve (GivenName d))
                (filter (\<lambda>d. DeviceConf.Name d = [] \<and> RealPath e (GivenName d) = None)
                   (Devices config))
         else [])) \<and>
   ((\<forall>d\<in>set (Devices config). DeviceConf.Name d = [] \<longrightarrow> RealPath e (GivenName d) = None) \<longrightarrow>
      (\<exists>w'. resolveSymlinks e config w = Inr (config, w'))) \<and>
   (LogFile (Defaults config) = [] \<or>
    (\<forall>g p. appendLine e (LogFile (Defaults config)) (SymlinkResolved g p)) \<longrightarrow>
      (\<exists>config' w'. resolveSymlinks e config w = Inr (config', w'))) \<and>
   (\<forall>config' w' v config'' v'.
      resolveSymlinks e config w = Inr (config', w') \<and>
      resolveSymlinks e config' v = Inr (config'', v') \<longrightarrow> config'' = config')"
proof -
  let ?r = "\<lambda>d. if DeviceConf.Name d = [] then
                    (case RealPath e (GivenName d) of
                       Some realPath \<Rightarrow> d\<lparr>DeviceConf.Name := realPath\<rparr>
                     | None \<Rightarrow> d)
                  else d"
  have off: "resolveSymlinks e config w = Inr (config, w)"
    if "SymlinkPolicy (Defaults config) = 0" for config w
    using that by (simp add: resolveSymlinks_def)
  have resolved: "resolveSymlinks e config w = Inr (config, w)"
    if a: "\<forall>d\<in>set (Devices config). DeviceConf.Name d \<noteq> []"
  proof (cases "SymlinkPolicy (Defaults config) = 0")
    case True
    then show ?thesis by (rule off)
  next
    case False
    have "resolveDevices e defaults devices w = Inr (devices, w)"
      if "\<forall>d\<in>set devices. DeviceConf.Name d \<noteq> []" for devices defaults
      using that by (induction devices) simp_all
    from this [OF a] False show ?thesis by (simp add: resolveSymlinks_def)
  qed
  have on: "config' = config\<lparr>Devices := map ?r (Devices config)\<rparr> \<and>
      filter isRealPath (newEvents w w') =
        map (\<lambda>d. CallRealPath (GivenName d))
          (filter (\<lambda>d. DeviceConf.Name d = []) (Devices config)) \<and>
      filter isCannotResolve (newEvents w w') =
        (if Debug (Defaults config)
         then map (\<lambda>d. PrintCannotResolve (GivenName d))
                (filter (\<lambda>d. DeviceConf.Name d = [] \<and> RealPath e (GivenName d) = None)
                   (Devices config))
         else [])"
    if p: "SymlinkPolicy (Defaults config) \<noteq> 0"
      and r: "resolveSymlinks e config w = Inr (config', w')" for config config' w w'
  proof -
    from p r obtain devices' where d:
      "resolveDevices e (Defaults config) (Devices config) w = Inr (devices', w')"
      "config' = config\<lparr>Devices := devices'\<rparr>"
      by (auto simp: resolveSymlinks_def split: sum.splits)
    from resolveDevices_Inr [OF d(1)] obtain evs where evs:
      "devices' = map ?r (Devices config)" "trace w' = trace w @ evs"
      "filter isRealPath evs =
        map (\<lambda>d. CallRealPath (GivenName d))
          (filter (\<lambda>d. DeviceConf.Name d = []) (Devices config))"
      "filter isCannotResolve evs =
        (if Debug (Defaults config)
         then map (\<lambda>d. PrintCannotResolve (GivenName d))
                (filter (\<lambda>d. DeviceConf.Name d = [] \<and> RealPath e (GivenName d) = None)
                   (Devices config))
         else [])"
      by blast
    have "newEvents w w' = evs" by (rule newEvents_append [OF evs(2)])
    with d(2) evs show ?thesis by simp
  qed
  have fail: "\<exists>w'. resolveSymlinks e config w = Inr (config, w')"
    if a: "\<forall>d\<in>set (Devices config). DeviceConf.Name d = [] \<longrightarrow> RealPath e (GivenName d) = None"
  proof (cases "SymlinkPolicy (Defaults config) = 0")
    case True
    from off [OF True] show ?thesis by blast
  next
    case False
    from resolveDevices_all_fail [OF a, of "Defaults config" w] obtain w' where
      "resolveDevices e (Defaults config) (Devices config) w = Inr (Devices config, w')" by blast
    with False show ?thesis by (simp add: resolveSymlinks_def)
  qed
  have returns: "\<exists>config' w'. resolveSymlinks e config w = Inr (config', w')"
    if a: "LogFile (Defaults config) = [] \<or>
      (\<forall>g p. appendLine e (LogFile (Defaults config)) (SymlinkResolved g p))"
  proof (cases "SymlinkPolicy (Defaults config) = 0")
    case True
    from off [OF True] show ?thesis by blast
  next
    case False
    from resolveDevices_returns [OF a, of "Devices config" w] obtain devices' w' where
      "resolveDevices e (Defaults config) (Devices config) w = Inr (devices', w')" by blast
    with False show ?thesis by (simp add: resolveSymlinks_def)
  qed
  have rr: "?r (?r d) = ?r d" for d
    by (cases "RealPath e (GivenName d)") auto
  have twice: "config'' = config'"
    if a: "resolveSymlinks e config w = Inr (config', w')"
      and b: "resolveSymlinks e config' v = Inr (config'', v')" for config' w' v config'' v'
  proof (cases "SymlinkPolicy (Defaults config) = 0")
    case True
    with a have "config' = config" by (simp add: resolveSymlinks_def)
    with b True show ?thesis by (simp add: resolveSymlinks_def)
  next
    case False
    from on [OF False a] have c1: "config' = config\<lparr>Devices := map ?r (Devices config)\<rparr>"
      by blast
    then have p: "SymlinkPolicy (Defaults config') \<noteq> 0" using False by simp
    from on [OF p b] have "config'' = config'\<lparr>Devices := map ?r (Devices config')\<rparr>"
      by blast
    also have "map ?r (Devices config') = map ?r (map ?r (Devices config))"
      using c1 by simp
    also have "\<dots> = map ?r (Devices config)"
      by (simp only: map_map comp_def rr)
    finally show ?thesis using c1 by simp
  qed
  from off resolved on fail returns twice show ?thesis by blast
qed

theorem C9_witness:
  "SymlinkPolicy (Defaults resolverConfig) \<noteq> 0 \<and>
   (\<exists>config' w'. resolveSymlinks exampleEnv resolverConfig exampleWorld = Inr (config', w') \<and>
      map DeviceConf.Name (Devices config') = [''sdb'', [], ''sdc''] \<and>
      filter isRealPath (newEvents exampleWorld w') =
        [CallRealPath ''/dev/disk/by-label/data'', CallRealPath ''/dev/disk/by-label/gone''] \<and>
      filter isCannotResolve (newEvents exampleWorld w') =
        [PrintCannotResolve ''/dev/disk/by-label/gone''] \<and>
      (\<exists>v. resolveSymlinks exampleEnv config' w' = Inr (config', v)))"
proof -
  note t = C9_resolver_idempotent_and_not_fatal [of resolverConfig exampleEnv exampleWorld]
  have p: "SymlinkPolicy (Defaults resolverConfig) \<noteq> 0"
    by (simp add: resolverConfig_def)
  have a: "\<forall>g p. appendLine exampleEnv (LogFile (Defaults resolverConfig)) (SymlinkResolved g p)"
    by (simp add: exampleEnv_def)
  from t a obtain config' w' where r:
    "resolveSymlinks exampleEnv resolverConfig exampleWorld = Inr (config', w')" by blast
  from t p r have c: "config' = resolverConfig\<lparr>Devices :=
        map (\<lambda>d. if DeviceConf.Name d = [] then
                    (case RealPath exampleEnv (GivenName d) of
                       Some realPath \<Rightarrow> d\<lparr>DeviceConf.Name := realPath\<rparr>
                     | None \<Rightarrow> d)
                  else d) (Devices resolverConfig)\<rparr>"
    and ev: "filter isRealPath (newEvents exampleWorld w') =
        map (\<lambda>d. CallRealPath (GivenName d))
          (filter (\<lambda>d. DeviceConf.Name d = []) (Devices resolverConfig))"
      "filter isCannotResolve (newEvents exampleWorld w') =
        (if Debug (Defaults resolverConfig)
         then map (\<lambda>d. PrintCannotResolve (GivenName d))
                (filter (\<lambda>d. DeviceConf.Name d = [] \<and> RealPath exampleEnv (GivenName d) = None)
                   (Devices resolverConfig))
         else [])"
    by blast+
  have names: "map DeviceConf.Name (Devices config') = [''sdb'', [], ''sdc'']"
    unfolding c by (simp add: resolverConfig_def exampleEnv_def)
  have ev1: "filter isRealPath (newEvents exampleWorld w') =
        [CallRealPath ''/dev/disk/by-label/data'', CallRealPath ''/dev/disk/by-label/gone'']"
    unfolding ev(1) by (simp add: resolverConfig_def)
  have ev2: "filter isCannotResolve (newEvents exampleWorld w') =
        [PrintCannotResolve ''/dev/disk/by-label/gone'']"
    unfolding ev(2) by (simp add: resolverConfig_def exampleEnv_def)
  have a': "\<forall>g p. appendLine exampleEnv (LogFile (Defaults config')) (SymlinkResolved g p)"
    by (simp add: exampleEnv_def)
  from C9_resolver_idempotent_and_not_fatal [of config' exampleEnv w'] a'
  obtain config'' v where r2: "resolveSymlinks exampleEnv config' w' = Inr (config'', v)"
    by blast
  from t r r2 have "config'' = config'" by blast
  with r2 have "\<exists>v. resolveSymlinks exampleEnv config' w' = Inr (config', v)" by blast
  with p r names ev1 ev2 show ?thesis by auto
qed

section \<open>Skew detection\<close>




section \<open>Spin-up on changed counters\<close>

text \<open>
  C5, as the code has it. Take a known device and the state \<open>ds\<close> it has when its counters
  are compared, and let the counters of the snapshot differ from the stored ones. If \<open>ds\<close>
  is spun down (and the log file, if one is configured, takes the line), \<^verbatim>\<open>updateState\<close>
  prints \<^verbatim>\<open><name> spinup\<close> once and, only if a log file is configured, appends one line
  that reports as \<^verbatim>\<open>running\<close> the duration \<open>SpinDownAt - SpinUpAt\<close> and as \<^verbatim>\<open>stopped\<close> the
  duration \<open>t - SpinDownAt\<close>, where \<open>t\<close> is the clock read by \<^verbatim>\<open>logSpinup\<close>, and it sets
  \<open>SpinUpAt = now\<close>. If \<open>ds\<close> is running, no spin-up is reported and \<open>SpinUpAt\<close> is kept.
  In both cases the counters are updated, \<open>LastIoAt = now\<close> and \<open>SpunDown = False\<close>.
\<close>

theorem C5_spinup_on_changed_counters:
  assumes "previousDiskStatsIndex w (DiskStats.Name tmp) = int dsi"
    and "updateState_skew e config dsi w = Inr w1"
    and "previousSnapshots w1 ! dsi = ds"
    and "Reads ds \<noteq> Reads tmp \<or> Writes ds \<noteq> Writes tmp"
    and "\<not> SpunDown ds \<or> LogFile (Defaults config) = [] \<or>
      appendLine e (LogFile (Defaults config))
        (SpinupText (clock e (ticks w)) (DiskStats.Name ds)
           (Sub (SpinDownAt ds) (SpinUpAt ds)) (Sub (clock e (ticks w)) (SpinDownAt ds)))"
  shows "\<exists>w'. updateState e tmp config w = Inr w' \<and>
     previousSnapshots w' = (previousSnapshots w1)[dsi :=
       ds\<lparr>SpinUpAt := (if SpunDown ds then now w else SpinUpAt ds),
          Reads := Reads tmp, Writes := Writes tmp, LastIoAt := now w, SpunDown := False\<rparr>] \<and>
     filter isSpinup (newEvents w w') =
       (if SpunDown ds then
          PrintSpinup (DiskStats.Name ds) #
          (if LogFile (Defaults config) = [] then []
           else [LogLine (LogFile (Defaults config))
                   (SpinupText (clock e (ticks w)) (DiskStats.Name ds)
                      (Sub (SpinDownAt ds) (SpinUpAt ds))
                      (Sub (clock e (ticks w)) (SpinDownAt ds)))])
        else [])"
proof -
  have len: "dsi < length (previousSnapshots w1)"
    by (rule known_in_range(1) [OF assms(1,2)])
  from skew_result [OF assms(2), of w1] obtain sk where sk:
    "trace w1 = trace w @ sk" "filter isSpinup sk = []" "now w1 = now w" "ticks w1 = ticks w"
    by auto
  from debug_result obtain dbg where dbg:
    "\<And>v. updateState_debug config dsi v = v\<lparr>trace := trace v @ dbg v\<rparr>"
    "\<And>v. filter isSpinup (dbg v) = []"
    by metis
  let ?new = "ds\<lparr>SpinUpAt := (if SpunDown ds then now w else SpinUpAt ds),
          Reads := Reads tmp, Writes := Writes tmp, LastIoAt := now w, SpunDown := False\<rparr>"
  let ?evs = "if SpunDown ds then
          PrintSpinup (DiskStats.Name ds) #
          (if LogFile (Defaults config) = [] then []
           else [LogLine (LogFile (Defaults config))
                   (SpinupText (clock e (ticks w)) (DiskStats.Name ds)
                      (Sub (SpinDownAt ds) (SpinUpAt ds))
                      (Sub (clock e (ticks w)) (SpinDownAt ds)))])
        else []"
  have "\<exists>v. updateState_activity e tmp config dsi w1 = Inr v \<and>
      previousSnapshots v = (previousSnapshots w1)[dsi := ?new] \<and>
      trace v = trace w1 @ ?evs"
  proof (cases "SpunDown ds")
    case False
    from activity_changed_running [OF assms(3,4) False, of e config] sk(3) False
    show ?thesis by simp
  next
    case True
    from activity_changed_stopped [OF assms(3,4) True len, of e config] assms(5) True sk(3,4)
    show ?thesis by auto
  qed
  then obtain v where v: "updateState_activity e tmp config dsi w1 = Inr v"
    "previousSnapshots v = (previousSnapshots w1)[dsi := ?new]" "trace v = trace w1 @ ?evs"
    by blast
  let ?w' = "v\<lparr>trace := trace v @ dbg v\<rparr>"
  have u: "updateState e tmp config w = Inr ?w'"
    using dbg(1) [of v] by (simp add: updateState_known [OF assms(1)] assms(2) v(1))
  have "trace ?w' = trace w @ (sk @ ?evs @ dbg v)"
    using v(3) sk(1) by simp
  then have "newEvents w ?w' = sk @ ?evs @ dbg v" by (rule newEvents_append)
  then have ne: "filter isSpinup (newEvents w ?w') = ?evs"
    using sk(2) dbg(2) [of v] by simp
  show ?thesis
    using u v(2) ne by (intro exI [of _ ?w']) simp
qed

theorem C5_witness:
  "previousDiskStatsIndex stoppedWorld (DiskStats.Name (disk ''sda'' 0 [] 12 5)) = int 0 \<and>
   updateState_skew exampleEnv exampleConfig 0 stoppedWorld = Inr stoppedWorld \<and>
   Reads (previousSnapshots stoppedWorld ! 0) \<noteq> Reads (disk ''sda'' 0 [] 12 5) \<and>
   SpunDown (previousSnapshots stoppedWorld ! 0) \<and>
   (\<exists>w'. updateState exampleEnv (disk ''sda'' 0 [] 12 5) exampleConfig stoppedWorld = Inr w' \<and>
      filter isSpinup (newEvents stoppedWorld w') =
        [PrintSpinup ''sda'', LogLine ''/var/log/hd-idle.log'' (SpinupText 9 ''sda'' 3 6)] \<and>
      previousSnapshots w' =
        [\<lparr>DiskStats.Name = ''sda'', IdleTime = 2, DiskStats.CommandType = ''scsi'',
          Reads = 12, Writes = 5, SpinDownAt = 3, SpinUpAt = 4, LastIoAt = 4,
          SpunDown = False\<rparr>,
         stopped (disk ''sdb'' 5 ''ata'' 7 7)])"
proof -
  have h1: "previousDiskStatsIndex stoppedWorld (DiskStats.Name (disk ''sda'' 0 [] 12 5)) = int 0"
    by (simp add: example_defs previousDiskStatsIndex_def)
  have h2: "updateState_skew exampleEnv exampleConfig 0 stoppedWorld = Inr stoppedWorld"
    by (simp add: example_defs updateState_skew_def Sub_defs)
  have h3: "Reads (previousSnapshots stoppedWorld ! 0) \<noteq> Reads (disk ''sda'' 0 [] 12 5)"
    and h4: "SpunDown (previousSnapshots stoppedWorld ! 0)"
    by (simp_all add: example_defs)
  have h5: "appendLine exampleEnv (LogFile (Defaults exampleConfig))
        (SpinupText (clock exampleEnv (ticks stoppedWorld))
           (DiskStats.Name (previousSnapshots stoppedWorld ! 0))
           (Sub (SpinDownAt (previousSnapshots stoppedWorld ! 0))
              (SpinUpAt (previousSnapshots stoppedWorld ! 0)))
           (Sub (clock exampleEnv (ticks stoppedWorld))
              (SpinDownAt (previousSnapshots stoppedWorld ! 0))))"
    by (simp add: example_defs)
  from C5_spinup_on_changed_counters [OF h1 h2 refl disjI1 [OF h3] disjI2 [OF disjI2 [OF h5]]]
  obtain w' where w':
    "updateState exampleEnv (disk ''sda'' 0 [] 12 5) exampleConfig stoppedWorld = Inr w'"
    "previousSnapshots w' = (previousSnapshots stoppedWorld)[0 :=
       (previousSnapshots stoppedWorld ! 0)
         \<lparr>SpinUpAt := (if SpunDown (previousSnapshots stoppedWorld ! 0) then now stoppedWorld
                       else SpinUpAt (previousSnapshots stoppedWorld ! 0)),
          Reads := Reads (disk ''sda'' 0 [] 12 5), Writes := Writes (disk ''sda'' 0 [] 12 5),
          LastIoAt := now stoppedWorld, SpunDown := False\<rparr>]"
    "filter isSpinup (newEvents stoppedWorld w') =
       (if SpunDown (previousSnapshots stoppedWorld ! 0) then
          PrintSpinup (DiskStats.Name (previousSnapshots stoppedWorld ! 0)) #
          (if LogFile (Defaults exampleConfig) = [] then []
           else [LogLine (LogFile (Defaults exampleConfig))
                   (SpinupText (clock exampleEnv (ticks stoppedWorld))
                      (DiskStats.Name (previousSnapshots stoppedWorld ! 0))
                      (Sub (SpinDownAt (previousSnapshots stoppedWorld ! 0))
                         (SpinUpAt (previousSnapshots stoppedWorld ! 0)))
                      (Sub (clock exampleEnv (ticks stoppedWorld))
                         (SpinDownAt (previousSnapshots stoppedWorld ! 0))))])
        else [])"
    by blast
  have e1: "filter isSpinup (newEvents stoppedWorld w') =
        [PrintSpinup ''sda'', LogLine ''/var/log/hd-idle.log'' (SpinupText 9 ''sda'' 3 6)]"
    unfolding w'(3) by (simp add: example_defs Sub_defs)
  have e2: "previousSnapshots w' =
        [\<lparr>DiskStats.Name = ''sda'', IdleTime = 2, DiskStats.CommandType = ''scsi'',
          Reads = 12, Writes = 5, SpinDownAt = 3, SpinUpAt = 4, LastIoAt = 4,
          SpunDown = False\<rparr>,
         stopped (disk ''sdb'' 5 ''ata'' 7 7)]"
    unfolding w'(2) by (simp add: example_defs)
  from h1 h2 h3 h4 w'(1) e1 e2 show ?thesis by auto
qed

text \<open>
  C5 as stated fails: without a log file the only spin-up event is the console line,
  which reports no duration; with a log file the line reports \<open>SpinDownAt - SpinUpAt = 3\<close>
  as the time running and \<open>9 - SpinDownAt = 6\<close> as the time stopped, 9 being the clock
  and not the cycle's \<open>now = 4\<close>.
\<close>

theorem C5_counterexample:
  "updateState exampleEnv (disk ''sda'' 0 [] 12 5) quietConfig stoppedWorld =
     Inr \<lparr>previousSnapshots =
            [\<lparr>DiskStats.Name = ''sda'', IdleTime = 2, DiskStats.CommandType = ''scsi'',
              Reads = 12, Writes = 5, SpinDownAt = 3, SpinUpAt = 4, LastIoAt = 4,
              SpunDown = False\<rparr>,
             stopped (disk ''sdb'' 5 ''ata'' 7 7)],
          now = 4, lastNow = 3, ticks = 6,
          trace = [PrintSpinup ''sda'']\<rparr> \<and>
   updateState exampleEnv (disk ''sda'' 0 [] 12 5) exampleConfig stoppedWorld =
     Inr \<lparr>previousSnapshots =
            [\<lparr>DiskStats.Name = ''sda'', IdleTime = 2, DiskStats.CommandType = ''scsi'',
              Reads = 12, Writes = 5, SpinDownAt = 3, SpinUpAt = 4, LastIoAt = 4,
              SpunDown = False\<rparr>,
             stopped (disk ''sdb'' 5 ''ata'' 7 7)],
          now = 4, lastNow = 3, ticks = 6,
          trace = [PrintSpinup ''sda'',
                   LogLine ''/var/log/hd-idle.log'' (SpinupText 9 ''sda'' 3 6)]\<rparr>"
  by (simp add: eval_defs quietConfig_def)

section \<open>First sighting\<close>

text \<open>
  C6, as the code has it. When a snapshot entry names a device that has no state,
  \<^verbatim>\<open>updateState\<close> returns, having appended one state: name and counters from the entry,
  idle time and command type from \<^verbatim>\<open>deviceConfig\<close>, not spun down, \<open>LastIoAt\<close> and
  \<open>SpinUpAt\<close> the next two readings of the clock (not the cycle's \<open>now\<close>). Nothing is
  printed, logged or called. A later call for the same name with the same counters, in a
  cycle without skew and at a time \<open>t\<close> with idle time 0 or \<open>t - LastIoAt\<close> not greater than
  the idle time, returns with the states unchanged and issues no spin-down, no stop
  command and no spin-up event.
\<close>

theorem C6_first_sighting:
  assumes "previousDiskStatsIndex w (DiskStats.Name tmp) < 0"
  shows "\<exists>dc w'.
     deviceConfig (DiskStats.Name tmp) config = Some dc \<and>
     updateState e tmp config w = Inr w' \<and>
     previousSnapshots w' = previousSnapshots w @
       [\<lparr>DiskStats.Name = DiskStats.Name tmp, IdleTime = DeviceConf.Idle dc,
         DiskStats.CommandType = DeviceConf.CommandType dc,
         Reads = Reads tmp, Writes = Writes tmp, SpinDownAt = zeroTime,
         SpinUpAt = clock e (Suc (ticks w)), LastIoAt = clock e (ticks w),
         SpunDown = False\<rparr>] \<and>
     trace w' = trace w \<and> now w' = now w \<and> lastNow w' = lastNow w \<and>
     (\<forall>e2 tmp2 config2 t t'.
        DiskStats.Name tmp2 = DiskStats.Name tmp \<and> Reads tmp2 = Reads tmp \<and>
        Writes tmp2 = Writes tmp \<and> \<not> SkewTime config2 < Sub t t' \<and>
        (DeviceConf.Idle dc = 0 \<or> \<not> DeviceConf.Idle dc < Sub t (clock e (ticks w))) \<longrightarrow>
        (\<exists>w''. updateState e2 tmp2 config2 (w'\<lparr>now := t, lastNow := t'\<rparr>) = Inr w'' \<and>
           previousSnapshots w'' = previousSnapshots w' \<and>
           filter isSpindown (newEvents (w'\<lparr>now := t, lastNow := t'\<rparr>) w'') = [] \<and>
           filter isStop (newEvents (w'\<lparr>now := t, lastNow := t'\<rparr>) w'') = [] \<and>
           filter isSpinup (newEvents (w'\<lparr>now := t, lastNow := t'\<rparr>) w'') = []))"
proof -
  from updateState_unknown [OF assms, of config e] obtain dc where dc:
    "deviceConfig (DiskStats.Name tmp) config = Some dc"
    "updateState e tmp config w =
       Inr (w\<lparr>previousSnapshots := previousSnapshots w @
              [\<lparr>DiskStats.Name = DiskStats.Name tmp, IdleTime = DeviceConf.Idle dc,
                DiskStats.CommandType = DeviceConf.CommandType dc,
                Reads = Reads tmp, Writes = Writes tmp, SpinDownAt = zeroTime,
                SpinUpAt = clock e (Suc (ticks w)), LastIoAt = clock e (ticks w),
                SpunDown = False\<rparr>],
             ticks := Suc (Suc (ticks w))\<rparr>)"
    by blast
  let ?d = "\<lparr>DiskStats.Name = DiskStats.Name tmp, IdleTime = DeviceConf.Idle dc,
                DiskStats.CommandType = DeviceConf.CommandType dc,
                Reads = Reads tmp, Writes = Writes tmp, SpinDownAt = zeroTime,
                SpinUpAt = clock e (Suc (ticks w)), LastIoAt = clock e (ticks w),
                SpunDown = False\<rparr>"
  let ?w' = "w\<lparr>previousSnapshots := previousSnapshots w @ [?d], ticks := Suc (Suc (ticks w))\<rparr>"
  have absent: "DiskStats.Name tmp \<notin> set (map DiskStats.Name (previousSnapshots w))"
    using assms unfolding previousDiskStatsIndex_def indexFrom_absent .
  have again: "\<exists>w''. updateState e2 tmp2 config2 (?w'\<lparr>now := t, lastNow := t'\<rparr>) = Inr w'' \<and>
           previousSnapshots w'' = previousSnapshots ?w' \<and>
           filter isSpindown (newEvents (?w'\<lparr>now := t, lastNow := t'\<rparr>) w'') = [] \<and>
           filter isStop (newEvents (?w'\<lparr>now := t, lastNow := t'\<rparr>) w'') = [] \<and>
           filter isSpinup (newEvents (?w'\<lparr>now := t, lastNow := t'\<rparr>) w'') = []"
    if h: "DiskStats.Name tmp2 = DiskStats.Name tmp" "Reads tmp2 = Reads tmp"
      "Writes tmp2 = Writes tmp" "\<not> SkewTime config2 < Sub t t'"
      "DeviceConf.Idle dc = 0 \<or> \<not> DeviceConf.Idle dc < Sub t (clock e (ticks w))"
    for e2 tmp2 config2 t t'
  proof -
    let ?v = "?w'\<lparr>now := t, lastNow := t'\<rparr>"
    let ?i = "length (previousSnapshots w)"
    have k: "previousDiskStatsIndex ?v (DiskStats.Name tmp2) = int ?i"
      using indexFrom_append_new [OF absent, of ?d 0] h(1)
      by (simp add: previousDiskStatsIndex_def)
    have s: "updateState_skew e2 config2 ?i ?v = Inr ?v"
      using h(4) by (intro updateState_skew_none) simp
    have nth: "previousSnapshots ?v ! ?i = ?d" by simp
    have c: "SpunDown ?d \<or> IdleTime ?d = 0 \<or> \<not> IdleTime ?d < Sub (now ?v) (LastIoAt ?d)"
      using h(5) by simp
    have rd: "Reads ?d = Reads tmp2" "Writes ?d = Writes tmp2" using h(2,3) by simp_all
    from updateState_idle [OF k s nth rd c]
    obtain w'' evs where q: "updateState e2 tmp2 config2 ?v = Inr w''"
      "previousSnapshots w'' = previousSnapshots ?v" "trace w'' = trace ?v @ evs"
      "filter isSpindown evs = []" "filter isStop evs = []" "filter isSpinup evs = []"
      by blast
    have "newEvents ?v w'' = evs" by (rule newEvents_append [OF q(3)])
    with q show ?thesis by simp
  qed
  from dc again show ?thesis
    by (intro exI [of _ dc] exI [of _ ?w']) simp
qed

theorem C6_witness:
  "previousDiskStatsIndex emptyWorld (DiskStats.Name (disk ''sda'' 0 [] 10 5)) < 0 \<and>
   (\<exists>w'. updateState exampleEnv (disk ''sda'' 0 [] 10 5) exampleConfig emptyWorld = Inr w' \<and>
      previousSnapshots w' =
        [\<lparr>DiskStats.Name = ''sda'', IdleTime = 2, DiskStats.CommandType = ''scsi'',
          Reads = 10, Writes = 5, SpinDownAt = 0, SpinUpAt = 6, LastIoAt = 5,
          SpunDown = False\<rparr>] \<and>
      trace w' = [] \<and>
      (\<exists>w''. updateState exampleEnv (disk ''sda'' 0 [] 10 5) exampleConfig
                (w'\<lparr>now := 7, lastNow := 4\<rparr>) = Inr w'' \<and>
         previousSnapshots w'' = previousSnapshots w' \<and>
         filter isSpindown (newEvents (w'\<lparr>now := 7, lastNow := 4\<rparr>) w'') = [] \<and>
         filter isSpinup (newEvents (w'\<lparr>now := 7, lastNow := 4\<rparr>) w'') = []))"
proof -
  have h: "previousDiskStatsIndex emptyWorld (DiskStats.Name (disk ''sda'' 0 [] 10 5)) < 0"
    by (simp add: eval_defs emptyWorld_def)
  have l: "deviceConfig (DiskStats.Name (disk ''sda'' 0 [] 10 5)) exampleConfig =
      Some \<lparr>DeviceConf.Name = ''sda'', GivenName = [], DeviceConf.Idle = 2,
            DeviceConf.CommandType = ''scsi''\<rparr>"
    by (simp add: eval_defs emptyWorld_def)
  from C6_first_sighting [OF h, of exampleConfig exampleEnv] l
  obtain w' where w':
    "updateState exampleEnv (disk ''sda'' 0 [] 10 5) exampleConfig emptyWorld = Inr w'"
    "previousSnapshots w' = previousSnapshots emptyWorld @
       [\<lparr>DiskStats.Name = DiskStats.Name (disk ''sda'' 0 [] 10 5), IdleTime = 2,
         DiskStats.CommandType = ''scsi'',
         Reads = Reads (disk ''sda'' 0 [] 10 5), Writes = Writes (disk ''sda'' 0 [] 10 5),
         SpinDownAt = zeroTime,
         SpinUpAt = clock exampleEnv (Suc (ticks emptyWorld)),
         LastIoAt = clock exampleEnv (ticks emptyWorld),
         SpunDown = False\<rparr>]"
    "trace w' = trace emptyWorld"
    "\<forall>e2 tmp2 config2 t t'.
        DiskStats.Name tmp2 = DiskStats.Name (disk ''sda'' 0 [] 10 5) \<and>
        Reads tmp2 = Reads (disk ''sda'' 0 [] 10 5) \<and>
        Writes tmp2 = Writes (disk ''sda'' 0 [] 10 5) \<and> \<not> SkewTime config2 < Sub t t' \<and>
        ((2::int) = 0 \<or> \<not> 2 < Sub t (clock exampleEnv (ticks emptyWorld))) \<longrightarrow>
        (\<exists>w''. updateState e2 tmp2 config2 (w'\<lparr>now := t, lastNow := t'\<rparr>) = Inr w'' \<and>
           previousSnapshots w'' = previousSnapshots w' \<and>
           filter isSpindown (newEvents (w'\<lparr>now := t, lastNow := t'\<rparr>) w'') = [] \<and>
           filter isStop (newEvents (w'\<lparr>now := t, lastNow := t'\<rparr>) w'') = [] \<and>
           filter isSpinup (newEvents (w'\<lparr>now := t, lastNow := t'\<rparr>) w'') = [])"
    by auto
  have c: "\<not> SkewTime exampleConfig < Sub 7 4"
    "((2::int) = 0 \<or> \<not> 2 < Sub 7 (clock exampleEnv (ticks emptyWorld)))"
    by (simp_all add: eval_defs emptyWorld_def)
  from w'(4) c have "\<exists>w''. updateState exampleEnv (disk ''sda'' 0 [] 10 5) exampleConfig
                (w'\<lparr>now := 7, lastNow := 4\<rparr>) = Inr w'' \<and>
         previousSnapshots w'' = previousSnapshots w' \<and>
         filter isSpindown (newEvents (w'\<lparr>now := 7, lastNow := 4\<rparr>) w'') = [] \<and>
         filter isSpinup (newEvents (w'\<lparr>now := 7, lastNow := 4\<rparr>) w'') = []"
    by blast
  moreover have "previousSnapshots w' =
        [\<lparr>DiskStats.Name = ''sda'', IdleTime = 2, DiskStats.CommandType = ''scsi'',
          Reads = 10, Writes = 5, SpinDownAt = 0, SpinUpAt = 6, LastIoAt = 5,
          SpunDown = False\<rparr>]"
    unfolding w'(2) by (simp add: eval_defs emptyWorld_def)
  moreover have "trace w' = []" unfolding w'(3) by (simp add: eval_defs emptyWorld_def)
  ultimately show ?thesis using h w'(1) by auto
qed

text \<open>
  C6 as stated fails: the new state has \<open>LastIoAt = 5\<close> and \<open>SpinUpAt = 6\<close> while
  \<open>now = 4\<close>; and the second observation of the same counters, at time 10, spins the
  device down.
\<close>

theorem C6_counterexample:
  "updateState exampleEnv (disk ''sda'' 0 [] 10 5) exampleConfig emptyWorld =
     Inr \<lparr>previousSnapshots =
            [\<lparr>DiskStats.Name = ''sda'', IdleTime = 2, DiskStats.CommandType = ''scsi'',
              Reads = 10, Writes = 5, SpinDownAt = 0, SpinUpAt = 6, LastIoAt = 5,
              SpunDown = False\<rparr>],
          now = 4, lastNow = 3, ticks = 3, trace = []\<rparr> \<and>
   updateState exampleEnv (disk ''sda'' 0 [] 10 5) exampleConfig
     \<lparr>previousSnapshots =
            [\<lparr>DiskStats.Name = ''sda'', IdleTime = 2, DiskStats.CommandType = ''scsi'',
              Reads = 10, Writes = 5, SpinDownAt = 0, SpinUpAt = 6, LastIoAt = 5,
              SpunDown = False\<rparr>],
          now = 10, lastNow = 4, ticks = 4, trace = []\<rparr> =
     Inr \<lparr>previousSnapshots =
            [\<lparr>DiskStats.Name = ''sda'', IdleTime = 2, DiskStats.CommandType = ''scsi'',
              Reads = 10, Writes = 5, SpinDownAt = 10, SpinUpAt = 6, LastIoAt = 5,
              SpunDown = True\<rparr>],
          now = 10, lastNow = 4, ticks = 4,
          trace = [PrintSpindown ''/dev/sda'', CallStopScsi ''/dev/sda'',
                   PrintError (''cannot spindown scsi disk /dev/sda:'' @ [CHR 0x0A] @
                     ''input/output error'' @ [CHR 0x0A])]\<rparr>"
  by (simp add: eval_defs emptyWorld_def)

end
